theory Spec2Isabelle
  imports Complex_Main "HOL-Library.AList"
begin

text \<open>
  The annotation pipeline and the rendering pass of \<open>annotate.py\<close>: the functions
  \<open>_repair_json\<close>, \<open>_clean\<close>, \<open>_call_ollama\<close>, the generator of \<open>annotate\<close>,
  \<open>_render_pdf\<close> and \<open>build_pdf\<close>, each under the name it has in the source. An
  exception is a value \<open>Inl e\<close>. What the code takes from libraries is either written
  out (\<open>str\<close> methods, the regular expressions, \<open>json.loads\<close>, \<open>int\<close>) or a
  parameter (the completion client, \<open>textwrap.wrap\<close>, the search for a quote on a
  page, the text of a \<open>float\<close>).
\<close>

section \<open>Text\<close>

text \<open>
  A Python \<open>str\<close> is a sequence of code points. Here it is a \<^typ>\<open>string\<close>, so the
  texts of the model are those whose code points are below 256; the character classes are
  the ones Python uses on that range.
\<close>

definition code :: "char \<Rightarrow> nat" where
  "code c = of_char c"

definition is_space :: "char \<Rightarrow> bool" where
  \<comment> \<open>what \<open>str.strip()\<close> removes\<close>
  "is_space c = (let n = code c in (9 \<le> n \<and> n \<le> 13) \<or> (28 \<le> n \<and> n \<le> 32) \<or> n = 133 \<or> n = 160)"

definition py_strip :: "string \<Rightarrow> string" where
  "py_strip s = rev (dropWhile is_space (rev (dropWhile is_space s)))"

definition is_upper :: "char \<Rightarrow> bool" where
  "is_upper c = (let n = code c in (65 \<le> n \<and> n \<le> 90) \<or> (192 \<le> n \<and> n \<le> 222 \<and> n \<noteq> 215))"

definition py_lower :: "string \<Rightarrow> string" where
  "py_lower s = map (\<lambda>c. if is_upper c then char_of (code c + 32) else c) s"

definition is_digit :: "char \<Rightarrow> bool" where
  "is_digit c = (let n = code c in 48 \<le> n \<and> n \<le> 57)"

definition is_word :: "char \<Rightarrow> bool" where
  \<comment> \<open>the class \<open>\w\<close> of \<open>re\<close> on a \<open>str\<close> pattern\<close>
  "is_word c = (let n = code c in
     (48 \<le> n \<and> n \<le> 57) \<or> (65 \<le> n \<and> n \<le> 90) \<or> n = 95 \<or> (97 \<le> n \<and> n \<le> 122)
     \<or> n = 170 \<or> n = 178 \<or> n = 179 \<or> n = 181 \<or> n = 185 \<or> n = 186
     \<or> (188 \<le> n \<and> n \<le> 190) \<or> (192 \<le> n \<and> n \<noteq> 215 \<and> n \<noteq> 247))"

fun py_find :: "char \<Rightarrow> string \<Rightarrow> int" where
  "py_find c [] = -1"
| "py_find c (x # xs) = (if x = c then 0 else (let r = py_find c xs in if r < 0 then -1 else r + 1))"

definition py_rfind :: "char \<Rightarrow> string \<Rightarrow> int" where
  "py_rfind c s = (let r = py_find c (rev s) in if r < 0 then -1 else int (length s) - 1 - r)"

definition py_slice :: "'a list \<Rightarrow> int \<Rightarrow> int \<Rightarrow> 'a list" where
  \<comment> \<open>\<open>xs[i:j]\<close>: a negative index counts from the end, and both are clipped to the list\<close>
  "py_slice xs i j =
     (let n = int (length xs);
          a = (if i < 0 then max (i + n) 0 else min i n);
          b = (if j < 0 then max (j + n) 0 else min j n)
      in take (nat (b - a)) (drop (nat a) xs))"

definition replace_char :: "char \<Rightarrow> char \<Rightarrow> string \<Rightarrow> string" where
  "replace_char a b s = map (\<lambda>c. if c = a then b else c) s"

fun digits_of :: "nat \<Rightarrow> string" where
  "digits_of n = (if n < 10 then [char_of (48 + n)] else digits_of (n div 10) @ [char_of (48 + n mod 10)])"

declare digits_of.simps [simp del]

definition str_int :: "int \<Rightarrow> string" where
  \<comment> \<open>the decimal text of an integer\<close>
  "str_int i = (if i < 0 then CHR ''-'' # digits_of (nat (- i)) else digits_of (nat i))"

section \<open>Exceptions, and the limits of the interpreter\<close>

datatype exn =
    ValueError string
  | TypeError string
  | AttributeError string
  | RuntimeError string
  | RecursionError string

fun exn_msg :: "exn \<Rightarrow> string" where
  \<comment> \<open>\<open>str(e)\<close>\<close>
  "exn_msg (ValueError m) = m"
| "exn_msg (TypeError m) = m"
| "exn_msg (AttributeError m) = m"
| "exn_msg (RuntimeError m) = m"
| "exn_msg (RecursionError m) = m"

definition value_error :: "exn \<Rightarrow> bool" where
  \<comment> \<open>what \<open>except ValueError\<close> catches\<close>
  "value_error e = (case e of ValueError _ \<Rightarrow> True | _ \<Rightarrow> False)"

definition raising :: "exn + 'a \<Rightarrow> ('a \<Rightarrow> exn + 'b) \<Rightarrow> exn + 'b" where
  \<comment> \<open>go on with the value, or pass the exception up\<close>
  "raising r f = (case r of Inl e \<Rightarrow> Inl e | Inr x \<Rightarrow> f x)"

fun collect :: "(exn + 'a) list \<Rightarrow> exn + 'a list" where
  \<comment> \<open>the values of a run of evaluations, or the first exception among them\<close>
  "collect [] = Inr []"
| "collect (Inl e # rs) = Inl e"
| "collect (Inr x # rs) = (case collect rs of Inl e \<Rightarrow> Inl e | Inr xs \<Rightarrow> Inr (x # xs))"

text \<open>
  CPython converts between \<open>int\<close> and decimal text up to a number of digits only,
  \<open>sys.get_int_max_str_digits()\<close>, which is 4300 unless the interpreter is told
  otherwise: beyond it \<open>str\<close> of an \<open>int\<close>, \<open>int\<close> of a text and the integer
  literals of \<open>json.loads\<close> raise a \<open>ValueError\<close>. The page numbers that the
  generator prints with \<^const>\<open>str_int\<close> are within that bound, since they come from
  \<open>int\<close> of a text and the number of pages of a document.
\<close>

definition MAX_STR_DIGITS :: nat where
  "MAX_STR_DIGITS = 4300"

definition int_too_long :: exn where
  \<comment> \<open>what \<open>str\<close> raises for an \<open>int\<close> of more digits\<close>
  "int_too_long = ValueError (''Exceeds the limit (4300 digits) for integer string conversion; ''
                              @ ''use sys.set_int_max_str_digits() to increase the limit'')"

definition literal_too_long :: "nat \<Rightarrow> exn" where
  \<comment> \<open>what \<open>int\<close> of a text raises for a literal of \<open>n\<close> digits, more than the limit\<close>
  "literal_too_long n = ValueError (''Exceeds the limit (4300 digits) for integer string conversion: value has ''
                                    @ str_int (int n) @ '' digits; use sys.set_int_max_str_digits() to increase the limit'')"

definition int_text :: "int \<Rightarrow> exn + string" where
  \<comment> \<open>\<open>str(i)\<close> of an \<open>int\<close>\<close>
  "int_text i = (if length (digits_of (nat \<bar>i\<bar>)) > MAX_STR_DIGITS then Inl int_too_long else Inr (str_int i))"

section \<open>JSON values and \<open>json.loads\<close>\<close>

text \<open>
  The values \<open>json.loads\<close> builds. A Python \<open>float\<close> is not computed with: it is
  carried by the literal that denotes it. An object is the \<open>dict\<close> in insertion order.
\<close>

datatype json =
    JNull
  | JBool bool
  | JInt int
  | JFloat string
  | JStr string
  | JArr "json list"
  | JObj "(string \<times> json) list"

text \<open>
  What a call of \<open>json.loads\<close> comes to: the value, its own \<open>JSONDecodeError\<close>
  (a subclass of \<open>ValueError\<close> whose text no handler of this program reads), or
  another exception. The decoder below raises one of those, the \<open>ValueError\<close> for an
  integer literal of more than \<^const>\<open>MAX_STR_DIGITS\<close> digits; the \<open>RecursionError\<close>
  of the interpreter for a text nested deeper than its stack allows depends on where the
  decoder is called, and the decoder below is \<open>json.loads\<close> on the texts that stay
  within it.
\<close>

datatype 'a decoded =
    Decoded 'a
  | JSONDecodeError
  | Raised exn

definition json_ws :: "char \<Rightarrow> bool" where
  "json_ws c = (c = CHR '' '' \<or> c = CHR 0x09 \<or> c = CHR 0x0A \<or> c = CHR 0x0D)"

definition skip_ws :: "string \<Rightarrow> string" where
  "skip_ws s = dropWhile json_ws s"

definition hex_val :: "char \<Rightarrow> nat option" where
  "hex_val c = (let n = code c in
     if 48 \<le> n \<and> n \<le> 57 then Some (n - 48)
     else if 65 \<le> n \<and> n \<le> 70 then Some (n - 55)
     else if 97 \<le> n \<and> n \<le> 102 then Some (n - 87)
     else None)"

definition hex4 :: "char \<Rightarrow> char \<Rightarrow> char \<Rightarrow> char \<Rightarrow> nat option" where
  "hex4 a b c d =
     (case (hex_val a, hex_val b, hex_val c, hex_val d) of
        (Some w, Some x, Some y, Some z) \<Rightarrow> Some (((w * 16 + x) * 16 + y) * 16 + z)
      | _ \<Rightarrow> None)"

definition unescape :: "char \<Rightarrow> char option" where
  \<open>unescape e =
     (if e = CHR ''"'' then Some (CHR ''"'')
      else if e = CHR 0x5C then Some (CHR 0x5C)
      else if e = CHR ''/'' then Some (CHR ''/'')
      else if e = CHR ''b'' then Some (CHR 0x08)
      else if e = CHR ''f'' then Some (CHR 0x0C)
      else if e = CHR ''n'' then Some (CHR 0x0A)
      else if e = CHR ''r'' then Some (CHR 0x0D)
      else if e = CHR ''t'' then Some (CHR 0x09)
      else None)\<close>

definition cons_fst :: "'a \<Rightarrow> ('a list \<times> 'b) option \<Rightarrow> ('a list \<times> 'b) option" where
  "cons_fst c r = (case r of None \<Rightarrow> None | Some (s, t) \<Rightarrow> Some (c # s, t))"

text \<open>
  The body of a string literal, after its opening quote: the decoded text and what follows
  the closing quote. The decoder is strict: a raw control character ends the parse.
  An escape \<open>\uXXXX\<close> above \<open>00FF\<close> denotes a character outside the texts of this
  model, and the scan stops there.
\<close>

fun scan_string :: "string \<Rightarrow> (string \<times> string) option" where
  "scan_string [] = None"
| \<open>scan_string (c # cs) =
     (if c = CHR ''"'' then Some ([], cs)
      else if c = CHR 0x5C then
        (case cs of
           [] \<Rightarrow> None
         | e # r \<Rightarrow>
             if e = CHR ''u'' then
               (case r of
                  h1 # h2 # h3 # h4 # r' \<Rightarrow>
                    (case hex4 h1 h2 h3 h4 of
                       Some n \<Rightarrow> if n < 256 then cons_fst (char_of n) (scan_string r') else None
                     | None \<Rightarrow> None)
                | _ \<Rightarrow> None)
             else
               (case unescape e of
                  Some x \<Rightarrow> cons_fst x (scan_string r)
                | None \<Rightarrow> None))
      else if code c < 32 then None
      else cons_fst c (scan_string cs))\<close>

definition digit_val :: "string \<Rightarrow> int" where
  "digit_val ds = foldl (\<lambda>a c. a * 10 + int (code c - 48)) 0 ds"

definition scan_int_part :: "string \<Rightarrow> (string \<times> string) option" where
  "scan_int_part s =
     (case s of
        [] \<Rightarrow> None
      | d # r \<Rightarrow>
          if d = CHR ''0'' then Some ([d], r)
          else if is_digit d then Some (takeWhile is_digit s, dropWhile is_digit s)
          else None)"

definition scan_frac :: "string \<Rightarrow> string \<times> string" where
  "scan_frac s =
     (case s of
        p # d # r \<Rightarrow>
          if p = CHR ''.'' \<and> is_digit d
          then (p # takeWhile is_digit (d # r), dropWhile is_digit (d # r))
          else ([], s)
      | _ \<Rightarrow> ([], s))"

definition scan_exp :: "string \<Rightarrow> string \<times> string" where
  "scan_exp s =
     (case s of
        e # r \<Rightarrow>
          if e = CHR ''e'' \<or> e = CHR ''E'' then
            (case r of
               g # r' \<Rightarrow>
                 if (g = CHR ''+'' \<or> g = CHR ''-'') \<and> r' \<noteq> [] \<and> is_digit (hd r')
                 then (e # g # takeWhile is_digit r', dropWhile is_digit r')
                 else if is_digit g
                 then (e # takeWhile is_digit r, dropWhile is_digit r)
                 else ([], s)
             | [] \<Rightarrow> ([], s))
          else ([], s)
      | [] \<Rightarrow> ([], s))"

definition scan_number :: "string \<Rightarrow> (json \<times> string) decoded" where
  "scan_number s =
     (let (sign, s1) = (case s of c # r \<Rightarrow> if c = CHR ''-'' then ([c], r) else ([], s) | [] \<Rightarrow> ([], s))
      in case scan_int_part s1 of
           None \<Rightarrow> JSONDecodeError
         | Some (ip, s2) \<Rightarrow>
             (let (fp, s3) = scan_frac s2; (ep, s4) = scan_exp s3
              in if fp = [] \<and> ep = []
                 then (if length ip > MAX_STR_DIGITS then Raised (literal_too_long (length ip))
                       else Decoded (JInt (if sign = [] then digit_val ip else - digit_val ip), s2))
                 else Decoded (JFloat (sign @ ip @ fp @ ep), s4)))"

definition literal :: "string \<Rightarrow> json \<Rightarrow> string \<Rightarrow> (json \<times> string) option" where
  "literal w v s = (if take (length w) s = w then Some (v, drop (length w) s) else None)"

definition or_else :: "'a option \<Rightarrow> 'a option \<Rightarrow> 'a option" where
  "or_else a b = (case a of Some x \<Rightarrow> Some x | None \<Rightarrow> b)"

definition scan_atom :: "string \<Rightarrow> (json \<times> string) decoded" where
  \<comment> \<open>a value that is neither a string, an array nor an object, in the scanner's order\<close>
  "scan_atom s =
     (case or_else (literal ''null'' JNull s)
          (or_else (literal ''true'' (JBool True) s)
                   (literal ''false'' (JBool False) s)) of
        Some r \<Rightarrow> Decoded r
      | None \<Rightarrow>
          (case scan_number s of
             Decoded r \<Rightarrow> Decoded r
           | Raised e \<Rightarrow> Raised e
           | JSONDecodeError \<Rightarrow>
               (case or_else (literal ''NaN'' (JFloat ''NaN'') s)
                    (or_else (literal ''Infinity'' (JFloat ''Infinity'') s)
                             (literal ''-Infinity'' (JFloat ''-Infinity'') s)) of
                  Some r \<Rightarrow> Decoded r
                | None \<Rightarrow> JSONDecodeError)))"

text \<open>
  The recursive descent of the decoder, on a clock: every call takes one tick, and
  \<open>json_loads\<close> starts it with more ticks than a text of that length can use.
\<close>

fun parse_value :: "nat \<Rightarrow> string \<Rightarrow> (json \<times> string) decoded"
  and parse_elems :: "nat \<Rightarrow> string \<Rightarrow> json list \<Rightarrow> (json \<times> string) decoded"
  and parse_members :: "nat \<Rightarrow> string \<Rightarrow> (string \<times> json) list \<Rightarrow> (json \<times> string) decoded"
where
  "parse_value 0 s = JSONDecodeError"
| \<open>parse_value (Suc n) s =
     (case s of
        [] \<Rightarrow> JSONDecodeError
      | c # r \<Rightarrow>
          if c = CHR ''"'' then
            (case scan_string r of None \<Rightarrow> JSONDecodeError | Some (t, r') \<Rightarrow> Decoded (JStr t, r'))
          else if c = CHR ''{'' then
            (case skip_ws r of
               [] \<Rightarrow> JSONDecodeError
             | d # r' \<Rightarrow> if d = CHR ''}'' then Decoded (JObj [], r') else parse_members n (d # r') [])
          else if c = CHR ''['' then
            (case skip_ws r of
               [] \<Rightarrow> JSONDecodeError
             | d # r' \<Rightarrow> if d = CHR '']'' then Decoded (JArr [], r') else parse_elems n (d # r') [])
          else scan_atom s)\<close>
| "parse_elems 0 s acc = JSONDecodeError"
| \<open>parse_elems (Suc n) s acc =
     (case parse_value n s of
        JSONDecodeError \<Rightarrow> JSONDecodeError
      | Raised e \<Rightarrow> Raised e
      | Decoded (v, r) \<Rightarrow>
          (case skip_ws r of
             [] \<Rightarrow> JSONDecodeError
           | d # r' \<Rightarrow>
               if d = CHR '','' then parse_elems n (skip_ws r') (acc @ [v])
               else if d = CHR '']'' then Decoded (JArr (acc @ [v]), r')
               else JSONDecodeError))\<close>
| "parse_members 0 s acc = JSONDecodeError"
| \<open>parse_members (Suc n) s acc =
     (case s of
        [] \<Rightarrow> JSONDecodeError
      | q # r \<Rightarrow>
          if q \<noteq> CHR ''"'' then JSONDecodeError
          else
            (case scan_string r of
               None \<Rightarrow> JSONDecodeError
             | Some (k, r1) \<Rightarrow>
                 (case skip_ws r1 of
                    [] \<Rightarrow> JSONDecodeError
                  | c # r2 \<Rightarrow>
                      if c \<noteq> CHR '':'' then JSONDecodeError
                      else
                        (case parse_value n (skip_ws r2) of
                           JSONDecodeError \<Rightarrow> JSONDecodeError
                         | Raised e \<Rightarrow> Raised e
                         | Decoded (v, r3) \<Rightarrow>
                             (case skip_ws r3 of
                                [] \<Rightarrow> JSONDecodeError
                              | d # r4 \<Rightarrow>
                                  if d = CHR ''}'' then Decoded (JObj (AList.update k v acc), r4)
                                  else if d = CHR '','' then parse_members n (skip_ws r4) (AList.update k v acc)
                                  else JSONDecodeError)))))\<close>

definition json_loads :: "string \<Rightarrow> json decoded" where
  "json_loads s =
     (case parse_value (2 * length s + 2) (skip_ws s) of
        JSONDecodeError \<Rightarrow> JSONDecodeError
      | Raised e \<Rightarrow> Raised e
      | Decoded (v, r) \<Rightarrow> if skip_ws r = [] then Decoded v else JSONDecodeError)"

section \<open>\<open>repr\<close> and \<open>str\<close>\<close>

definition hex_digit :: "nat \<Rightarrow> char" where
  "hex_digit n = (if n < 10 then char_of (48 + n) else char_of (87 + n))"

definition repr_char :: "char \<Rightarrow> char \<Rightarrow> string" where
  \<comment> \<open>one character inside \<open>repr\<close> of a \<open>str\<close> quoted with \<open>q\<close>\<close>
  "repr_char q c =
     (let n = code c in
      if c = q \<or> c = CHR 0x5C then [CHR 0x5C, c]
      else if c = CHR 0x09 then [CHR 0x5C, CHR ''t'']
      else if c = CHR 0x0A then [CHR 0x5C, CHR ''n'']
      else if c = CHR 0x0D then [CHR 0x5C, CHR ''r'']
      else if n < 32 \<or> n = 127 \<or> (128 \<le> n \<and> n \<le> 160) \<or> n = 173
      then [CHR 0x5C, CHR ''x'', hex_digit (n div 16), hex_digit (n mod 16)]
      else [c])"

definition py_repr_str :: "string \<Rightarrow> string" where
  \<open>py_repr_str s =
     (let q = (if CHR 0x27 \<in> set s \<and> CHR ''"'' \<notin> set s then CHR ''"'' else CHR 0x27)
      in q # concat (map (repr_char q) s) @ [q])\<close>

fun join :: "string \<Rightarrow> string list \<Rightarrow> string" where
  "join sep [] = []"
| "join sep [x] = x"
| "join sep (x # y # ys) = x @ sep @ join sep (y # ys)"

text \<open>
  \<open>repr\<close> of a decoded value, with \<open>d\<close> the calls the interpreter still allows
  on its stack where the conversion starts: every \<open>repr\<close> of an element takes one, and
  with none left the \<open>RecursionError\<close> is raised. What Python prints for a \<open>float\<close>
  is the parameter \<open>fr\<close>, from the literal to the text.
\<close>

definition too_deep :: "string \<Rightarrow> exn" where
  "too_deep what = RecursionError (''maximum recursion depth exceeded while getting the '' @ what @ '' of an object'')"

fun py_repr :: "nat \<Rightarrow> (string \<Rightarrow> string) \<Rightarrow> json \<Rightarrow> exn + string" where
  "py_repr 0 fr v = Inl (too_deep ''repr'')"
| "py_repr (Suc d) fr JNull = Inr ''None''"
| "py_repr (Suc d) fr (JBool b) = Inr (if b then ''True'' else ''False'')"
| "py_repr (Suc d) fr (JInt i) = int_text i"
| "py_repr (Suc d) fr (JFloat l) = Inr (fr l)"
| "py_repr (Suc d) fr (JStr s) = Inr (py_repr_str s)"
| "py_repr (Suc d) fr (JArr xs) =
     (case collect (map (py_repr d fr) xs) of
        Inl e \<Rightarrow> Inl e
      | Inr ts \<Rightarrow> Inr (''['' @ join '', '' ts @ '']''))"
| "py_repr (Suc d) fr (JObj kvs) =
     (case collect (map (\<lambda>kv. case py_repr d fr (snd kv) of
                                  Inl e \<Rightarrow> Inl e
                                | Inr t \<Rightarrow> Inr (py_repr_str (fst kv) @ '': '' @ t)) kvs) of
        Inl e \<Rightarrow> Inl e
      | Inr ts \<Rightarrow> Inr (''{'' @ join '', '' ts @ ''}''))"

definition py_str :: "nat \<Rightarrow> (string \<Rightarrow> string) \<Rightarrow> json \<Rightarrow> exn + string" where
  \<comment> \<open>\<open>str(v)\<close>: a \<open>str\<close> is returned as it is, any other value is printed as by \<open>repr\<close>\<close>
  "py_str d fr v =
     (case v of
        JStr s \<Rightarrow> Inr s
      | _ \<Rightarrow> if d = 0 then Inl (too_deep ''str'') else py_repr d fr v)"

definition type_name :: "json \<Rightarrow> string" where
  "type_name v =
     (case v of JNull \<Rightarrow> ''NoneType'' | JBool _ \<Rightarrow> ''bool'' | JInt _ \<Rightarrow> ''int'' | JFloat _ \<Rightarrow> ''float''
      | JStr _ \<Rightarrow> ''str'' | JArr _ \<Rightarrow> ''list'' | JObj _ \<Rightarrow> ''dict'')"

definition quoted :: "string \<Rightarrow> string" where
  "quoted s = [CHR 0x27] @ s @ [CHR 0x27]"

definition no_attribute :: "json \<Rightarrow> string \<Rightarrow> exn" where
  "no_attribute v a = AttributeError (quoted (type_name v) @ '' object has no attribute '' @ quoted a)"

definition dict_get :: "(string \<times> json) list \<Rightarrow> string \<Rightarrow> json \<Rightarrow> json" where
  \<comment> \<open>\<open>d.get(k, default)\<close>\<close>
  "dict_get kvs k d = (case map_of kvs k of Some v \<Rightarrow> v | None \<Rightarrow> d)"

definition py_iter :: "json \<Rightarrow> exn + json list" where
  \<comment> \<open>what a \<open>for\<close> loop over the value runs through\<close>
  "py_iter v =
     (case v of
        JArr xs \<Rightarrow> Inr xs
      | JStr s \<Rightarrow> Inr (map (\<lambda>c. JStr [c]) s)
      | JObj kvs \<Rightarrow> Inr (map (\<lambda>kv. JStr (fst kv)) kvs)
      | _ \<Rightarrow> Inl (TypeError (quoted (type_name v) @ '' object is not iterable'')))"

section \<open>The response repairer: \<open>_repair_json\<close>\<close>

fun strip_fences :: "string \<Rightarrow> string" where
  \<comment> \<open>\<open>re.sub(r"```(?:json)?", "", chunk)\<close>\<close>
  "strip_fences (a # b # c # r) =
     (if a = CHR 0x60 \<and> b = CHR 0x60 \<and> c = CHR 0x60
      then (if take 4 r = ''json'' then strip_fences (drop 4 r) else strip_fences r)
      else a # strip_fences (b # c # r))"
| "strip_fences s = s"

definition is_quote_or_word :: "char \<Rightarrow> bool" where
  \<open>is_quote_or_word c = (c = CHR ''"'' \<or> is_word c)\<close>

fun collapse_from :: "char option \<Rightarrow> string \<Rightarrow> string" where
  \<comment> \<open>the scan of \<open>re.sub(r'(?<=["\w])\n(?=["\w ])', ' ', chunk)\<close>, with the character before\<close>
  "collapse_from p [] = []"
| "collapse_from p (c # cs) =
     (if c = CHR 0x0A
         \<and> (case p of Some a \<Rightarrow> is_quote_or_word a | None \<Rightarrow> False)
         \<and> (case cs of d # _ \<Rightarrow> is_quote_or_word d \<or> d = CHR '' '' | [] \<Rightarrow> False)
      then CHR '' '' else c) # collapse_from (Some c) cs"

definition collapse_newlines :: "string \<Rightarrow> string" where
  "collapse_newlines s = collapse_from None s"

definition not_brace :: "char \<Rightarrow> bool" where
  "not_brace c = (c \<noteq> CHR ''{'' \<and> c \<noteq> CHR ''}'')"

function find_objects :: "string \<Rightarrow> string list" where
  \<comment> \<open>\<open>re.findall(r'\{[^{}]+\}', chunk, re.DOTALL)\<close>\<close>
  "find_objects [] = []"
| "find_objects (c # cs) =
     (if c = CHR ''{'' \<and> takeWhile not_brace cs \<noteq> [] \<and> take 1 (dropWhile not_brace cs) = ''}''
      then (c # takeWhile not_brace cs @ ''}'') # find_objects (drop 1 (dropWhile not_brace cs))
      else find_objects cs)"
  by pat_completeness auto
termination
proof (relation "measure length")
  fix c :: char and cs :: string
  have "length (drop 1 (dropWhile not_brace cs)) \<le> length cs"
    using length_dropWhile_le [of not_brace cs] by simp
  then show "(drop 1 (dropWhile not_brace cs), c # cs) \<in> measure length"
    by simp
qed simp_all

definition array_chunk :: "string \<Rightarrow> string" where
  \<comment> \<open>\<open>raw[s:e+1] if s != -1 and e > s else raw\<close>\<close>
  "array_chunk raw =
     (let s = py_find (CHR ''['') raw; e = py_rfind (CHR '']'') raw
      in if s \<noteq> -1 \<and> e > s then py_slice raw s (e + 1) else raw)"

definition truncation_candidate :: "string \<Rightarrow> string" where
  \<comment> \<open>\<open>chunk[:chunk.rfind("}")+1] + "]" if chunk.rfind("}") != -1 else chunk\<close>\<close>
  "truncation_candidate chunk =
     (let r = py_rfind (CHR ''}'') chunk
      in if r \<noteq> -1 then py_slice chunk 0 (r + 1) @ '']'' else chunk)"

definition candidates :: "string \<Rightarrow> string list" where
  "candidates chunk =
     [chunk, py_strip (strip_fences chunk), collapse_newlines chunk, truncation_candidate chunk]"

text \<open>
  \<open>json.loads\<close> is the parameter \<open>loads\<close>; \<^const>\<open>json_loads\<close> is the one the
  closed examples run. The three places that call it do not catch the same exceptions:
  the direct parse and the loop over the fragments catch \<open>JSONDecodeError\<close> only, the
  loop over the candidates catches every \<open>ValueError\<close>. What is not caught leaves
  \<open>_repair_json\<close>.
\<close>

fun first_parse :: "(string \<Rightarrow> json decoded) \<Rightarrow> string list \<Rightarrow> (exn + json) option" where
  \<comment> \<open>the loop over the candidates: it returns at the first one \<open>json.loads\<close> accepts,
      is left by an exception that is no \<open>ValueError\<close>, or runs to its end, which is \<open>None\<close>\<close>
  "first_parse loads [] = None"
| "first_parse loads (c # cs) =
     (case loads c of
        Decoded v \<Rightarrow> Some (Inr v)
      | JSONDecodeError \<Rightarrow> first_parse loads cs
      | Raised e \<Rightarrow> if value_error e then first_parse loads cs else Some (Inl e))"

definition parse_fragment :: "(string \<Rightarrow> json decoded) \<Rightarrow> string \<Rightarrow> (exn + json) option" where
  \<comment> \<open>the loop over the two variants of a fragment: the value appended, the exception that
      leaves it, or \<open>None\<close> when neither variant parses\<close>
  \<open>parse_fragment loads obj =
     (let obj' = replace_char (CHR 0x0A) (CHR '' '') obj
      in case loads obj' of
           Decoded v \<Rightarrow> Some (Inr v)
         | Raised e \<Rightarrow> Some (Inl e)
         | JSONDecodeError \<Rightarrow>
             (case loads (replace_char (CHR 0x27) (CHR ''"'') obj') of
                Decoded v \<Rightarrow> Some (Inr v)
              | Raised e \<Rightarrow> Some (Inl e)
              | JSONDecodeError \<Rightarrow> None))\<close>

fun extract_objects :: "(string \<Rightarrow> json decoded) \<Rightarrow> string list \<Rightarrow> json list \<Rightarrow> exn + json list" where
  \<comment> \<open>the loop over the fragments, with \<open>parsed\<close> as it is so far\<close>
  "extract_objects loads [] parsed = Inr parsed"
| "extract_objects loads (obj # objs) parsed =
     (case parse_fragment loads obj of
        None \<Rightarrow> extract_objects loads objs parsed
      | Some (Inl e) \<Rightarrow> Inl e
      | Some (Inr v) \<Rightarrow> extract_objects loads objs (parsed @ [v]))"

definition repair_failed :: "string \<Rightarrow> exn" where
  "repair_failed raw = ValueError (''JSON repair failed. Raw output: '' @ py_repr_str (take 300 raw))"

definition repair_json :: "(string \<Rightarrow> json decoded) \<Rightarrow> string \<Rightarrow> exn + json" where
  "repair_json loads raw =
     (case loads raw of
        Decoded v \<Rightarrow> Inr v
      | Raised e \<Rightarrow> Inl e
      | JSONDecodeError \<Rightarrow>
          (let chunk = array_chunk raw
           in case first_parse loads (candidates chunk) of
                Some r \<Rightarrow> r
              | None \<Rightarrow>
                  (case extract_objects loads (find_objects chunk) [] of
                     Inl e \<Rightarrow> Inl e
                   | Inr parsed \<Rightarrow> if parsed \<noteq> [] then Inr (JArr parsed) else Inl (repair_failed raw))))"

section \<open>The annotation validator: \<open>_clean\<close>\<close>

record annotation =
  atype :: string
  quote :: string
  annotation :: string
  themes :: "string list"

definition valid :: "string list" where
  "valid = [''notation'', ''definition'', ''question'', ''reaction'', ''device'', ''theme'', ''summary'']"

text \<open>
  \<open>str\<close> of a field can raise (\<^const>\<open>py_str\<close>), and the exception leaves
  \<open>_clean\<close>. \<open>d\<close> is the depth left to the interpreter where \<open>_clean\<close> runs.
\<close>

definition clean_item :: "nat \<Rightarrow> (string \<Rightarrow> string) \<Rightarrow> json \<Rightarrow> exn + annotation option" where
  \<comment> \<open>one turn of the loop: \<open>None\<close> where the loop continues without appending\<close>
  "clean_item d fr item =
     (case item of
        JObj kvs \<Rightarrow>
          raising (py_str d fr (dict_get kvs ''type'' (JStr ''notation''))) (\<lambda>s.
          (let t = py_strip (py_lower s)
           in raising (py_str d fr (dict_get kvs ''quote'' (JStr []))) (\<lambda>q.
              raising (py_str d fr (dict_get kvs ''annotation'' (JStr []))) (\<lambda>a.
              raising (case map_of kvs ''themes'' of
                         Some (JArr xs) \<Rightarrow> collect (map (py_str d fr) xs)
                       | _ \<Rightarrow> Inr []) (\<lambda>ths.
              Inr (Some \<lparr> atype = (if t \<in> set valid then t else ''notation''),
                          quote = py_strip (replace_char (CHR 0x0A) (CHR '' '') q),
                          annotation = py_strip (replace_char (CHR 0x0A) (CHR '' '') a),
                          themes = ths \<rparr>))))))
      | _ \<Rightarrow> Inr None)"

definition clean_items :: "nat \<Rightarrow> (string \<Rightarrow> string) \<Rightarrow> json list \<Rightarrow> exn + annotation list" where
  \<comment> \<open>the loop: the records appended, or the first exception\<close>
  "clean_items d fr items =
     raising (collect (map (clean_item d fr) items)) (\<lambda>rs. Inr (List.map_filter (\<lambda>r. r) rs))"

definition clean :: "nat \<Rightarrow> (string \<Rightarrow> string) \<Rightarrow> json \<Rightarrow> exn + annotation list" where
  "clean d fr raw_list =
     (case py_iter raw_list of
        Inl e \<Rightarrow> Inl e
      | Inr items \<Rightarrow> clean_items d fr items)"

section \<open>The completion client: \<open>_call_ollama\<close>\<close>

text \<open>
  What \<open>req_lib.post\<close>, \<open>raise_for_status\<close> and \<open>r.json()\<close> come to: the two failures
  the code names, any other exception with its text, or the body, which is \<open>None\<close> when
  it is not JSON (the decode error of \<open>r.json()\<close> is a \<open>ValueError\<close>).
\<close>

datatype reply =
    ConnectionError
  | Timeout
  | OtherError string
  | Body "json option"

text \<open>
  The surroundings of the pipeline: \<open>json.loads\<close>, the text of a \<open>float\<close>, the
  depth left to the interpreter where \<open>_clean\<close> runs, the completion client as a
  function of the model and the prompt, and the percentage \<open>int((i / n) * 92)\<close>,
  which Python computes in floating point.
\<close>

record env =
  decode :: "string \<Rightarrow> json decoded"
  float_text :: "string \<Rightarrow> string"
  str_depth :: nat
  post :: "string \<Rightarrow> string \<Rightarrow> reply"
  pct :: "nat \<Rightarrow> nat \<Rightarrow> int"

definition fallback :: "string \<Rightarrow> annotation" where
  "fallback m = \<lparr> atype = ''notation'', quote = [], annotation = m, themes = [] \<rparr>"

definition handle :: "string \<Rightarrow> exn \<Rightarrow> exn + annotation list" where
  \<comment> \<open>the \<open>except\<close> clauses, for an exception raised after the request, with \<open>raw\<close> as it is then\<close>
  "handle raw e =
     (case e of
        ValueError _ \<Rightarrow> Inr [fallback (''JSON parse failed. Raw: '' @ (if raw \<noteq> [] then take 500 raw else ''(empty)''))]
      | _ \<Rightarrow> Inl (RuntimeError (exn_msg e)))"

definition call_ollama :: "env \<Rightarrow> string \<Rightarrow> string \<Rightarrow> exn + annotation list" where
  "call_ollama E model prompt =
     (case post E model prompt of
        ConnectionError \<Rightarrow> Inl (RuntimeError ''Cannot connect to Ollama. Run: ollama serve'')
      | Timeout \<Rightarrow> Inl (RuntimeError ''Ollama timed out. Try a faster/smaller model.'')
      | OtherError m \<Rightarrow> Inl (RuntimeError m)
      | Body None \<Rightarrow> handle [] (ValueError ''Expecting value'')
      | Body (Some b) \<Rightarrow>
          (case b of
             JObj kvs \<Rightarrow>
               (case dict_get kvs ''response'' (JStr []) of
                  JStr r \<Rightarrow>
                    (let raw = py_strip r
                     in if raw = [] then Inr [fallback ''Model returned no output.'']
                        else
                          (case repair_json (decode E) raw of
                             Inl e \<Rightarrow> handle raw e
                           | Inr v \<Rightarrow>
                               (case clean (str_depth E) (float_text E) v of
                                  Inl e \<Rightarrow> handle raw e
                                | Inr cleaned \<Rightarrow>
                                    Inr (if cleaned \<noteq> [] then cleaned
                                         else [fallback ''No annotations produced.'']))))
                | v \<Rightarrow> handle [] (no_attribute v ''strip''))
           | _ \<Rightarrow> handle [] (no_attribute b ''get'')))"

section \<open>The pipeline driver: \<open>annotate\<close> and its generator\<close>

definition build_prompt :: "string \<Rightarrow> string \<Rightarrow> int \<Rightarrow> string" where
  \<open>build_prompt page_text instructions page_num =
     ''You are a literary annotation assistant. Read the page text and produce annotations as JSON.\<newline>\<newline>''
     @ ''ANNOTATION INSTRUCTIONS:\<newline>'' @ instructions @ ''\<newline>\<newline>''
     @ ''PAGE '' @ str_int page_num @ '' TEXT:\<newline>'' @ page_text @ ''\<newline>\<newline>''
     @ ''Return a JSON array. Each item must have EXACTLY these keys:\<newline>''
     @ ''  "type"       : one of: notation, definition, question, reaction, device, theme, summary\<newline>''
     @ ''  "quote"      : a SHORT verbatim phrase from the text (4-8 words). Must appear exactly in text.\<newline>''
     @ ''  "annotation" : your annotation in 1-3 sentences. No newlines inside.\<newline>''
     @ ''  "themes"     : array like ["love","identity"] or []\<newline>\<newline>''
     @ ''Rules:\<newline>''
     @ ''- Produce 3 to 6 annotations per page\<newline>''
     @ ''- The quote must be exact words from the text so they can be highlighted on the page\<newline>''
     @ ''- No apostrophes inside string values (write out: do not instead of don't)\<newline>''
     @ ''- No newlines inside any value\<newline>''
     @ ''- Output ONLY the raw JSON array. No markdown. No code fences. No explanation.\<newline>\<newline>''
     @ ''Example output:\<newline>''
     @ ''[{"type":"definition","quote":"thou art","annotation":"thou art means you are. An archaic second-person form used throughout Shakespeare.","themes":[]},\<newline>''
     @ ''{"type":"theme","quote":"music be the food of love","annotation":"Orsino frames love as a hunger fed by music. This opens the central theme of love as an irresistible appetite.","themes":["love","music"]}]\<newline>''\<close>

text \<open>
  The events of the stream. The label of a progress event is kept by its parts: the text
  \<open>Annotating page pg_num of p_end\<close> or \<open>Annotations complete\<close> (each ends with
  an ellipsis in the source). \<open>Done\<close> is the line \<open>data: [DONE]\<close>.
\<close>

datatype label = Annotating int int | Complete

datatype event =
    Progress int label
  | PageStart int
  | Annotation int annotation
  | Error string
  | Done

text \<open>
  A run is the events the generator yields and, between them, its calls of the client, each
  with the number of the page it is made for.
\<close>

datatype step = Yield event | Post int string string

datatype page_text = ExtractFails string | Extracted "string option"

datatype pdf = OpenFails string | Pdf "page_text list"

definition no_text :: annotation where
  "no_text = \<lparr> atype = ''notation'', quote = [],
               annotation = ''No extractable text on this page (may be an image).'', themes = [] \<rparr>"

fun annotate_pages :: "env \<Rightarrow> string \<Rightarrow> string \<Rightarrow> int \<Rightarrow> int \<Rightarrow> nat \<Rightarrow> nat \<Rightarrow> page_text list \<Rightarrow> step list" where
  \<comment> \<open>the loop \<open>for i, page in enumerate(pages)\<close> from index \<open>i\<close> on, and what follows it\<close>
  "annotate_pages E model instructions p_start p_end n i [] =
     [Yield (Progress 93 Complete), Yield Done]"
| "annotate_pages E model instructions p_start p_end n i (page # rest) =
     (let pg_num = p_start + int i + 1;
          head = [Yield (Progress (pct E i n) (Annotating pg_num p_end)), Yield (PageStart pg_num)]
      in case page of
           ExtractFails m \<Rightarrow> head @ [Yield (Error m)]
         | Extracted t \<Rightarrow>
             (let text = py_strip (case t of None \<Rightarrow> [] | Some x \<Rightarrow> x)
              in if text = []
                 then head @ [Yield (Annotation pg_num no_text)]
                      @ annotate_pages E model instructions p_start p_end n (Suc i) rest
                 else
                   (let text' = (if length text > 4000 then take 4000 text @ ''\<newline>[truncated]'' else text);
                        prompt = build_prompt text' instructions pg_num
                    in case call_ollama E model prompt of
                         Inl e \<Rightarrow> head @ [Post pg_num model prompt, Yield (Error (exn_msg e))]
                       | Inr anns \<Rightarrow>
                           head @ [Post pg_num model prompt] @ map (\<lambda>a. Yield (Annotation pg_num a)) anns
                           @ annotate_pages E model instructions p_start p_end n (Suc i) rest)))"

definition generate :: "env \<Rightarrow> pdf \<Rightarrow> string \<Rightarrow> string \<Rightarrow> int \<Rightarrow> int \<Rightarrow> step list" where
  "generate E doc model instructions page_from page_to =
     (case doc of
        OpenFails m \<Rightarrow> [Yield (Error m)]
      | Pdf all_pages \<Rightarrow>
          (let total = int (length all_pages);
               p_start = page_from - 1;
               p_end = min page_to total;
               pages = py_slice all_pages p_start p_end;
               n = length pages
           in if n = 0 then [Yield (Error ''No pages found in that range.'')]
              else annotate_pages E model instructions p_start p_end n 0 pages))"

definition events :: "step list \<Rightarrow> event list" where
  "events tr = concat (map (\<lambda>s. case s of Yield e \<Rightarrow> [e] | Post _ _ _ \<Rightarrow> []) tr)"

definition posts :: "step list \<Rightarrow> (int \<times> string \<times> string) list" where
  "posts tr = concat (map (\<lambda>s. case s of Yield _ \<Rightarrow> [] | Post pg m p \<Rightarrow> [(pg, m, p)]) tr)"

section \<open>The renderer: \<open>_render_pdf\<close>\<close>

text \<open>
  Coordinates and sizes are rationals where Python computes in floating point, so a
  comparison that falls between a float and the exact value can come out differently;
  the placement results below rest on the order of the numbers only. A drawing is the
  list of calls made on the page, each with the arguments the code gives it.
\<close>

type_synonym colour = "rat \<times> rat \<times> rat"

type_synonym rect = "rat \<times> rat \<times> rat \<times> rat"

datatype op =
    Separator rat rat rat
      \<comment> \<open>the line from \<open>(x, y0)\<close> to \<open>(x, y1)\<close>\<close>
  | Highlight rect colour colour
      \<comment> \<open>a hit of the quote, with fill and accent\<close>
  | Box rect colour colour
      \<comment> \<open>the background of a margin box, with fill and accent\<close>
  | Bar rect colour
      \<comment> \<open>the accent bar on the left edge of a box\<close>
  | InsertText rat rat string rat colour
      \<comment> \<open>\<open>insert_text\<close> at \<open>(x, y)\<close> of a text with font size and colour\<close>

definition ACCENT :: "(string \<times> colour) list" where
  "ACCENT =
     [(''definition'', (12/100, 75/100, 68/100)),
      (''question'', (90/100, 65/100, 5/100)),
      (''reaction'', (58/100, 45/100, 92/100)),
      (''device'', (18/100, 55/100, 92/100)),
      (''theme'', (92/100, 45/100, 12/100)),
      (''notation'', (45/100, 50/100, 58/100)),
      (''summary'', (18/100, 75/100, 38/100))]"

definition FILL :: "(string \<times> colour) list" where
  "FILL =
     [(''definition'', (88/100, 1, 98/100)),
      (''question'', (1, 97/100, 82/100)),
      (''reaction'', (96/100, 92/100, 1)),
      (''device'', (88/100, 95/100, 1)),
      (''theme'', (1, 93/100, 86/100)),
      (''notation'', (94/100, 94/100, 96/100)),
      (''summary'', (88/100, 1, 93/100))]"

definition LABEL :: "(string \<times> string) list" where
  "LABEL =
     [(''definition'', ''DEF''), (''question'', ''Q?''), (''reaction'', ''RXN''), (''device'', ''LIT''),
      (''theme'', ''THM''), (''notation'', ''NB''), (''summary'', ''SUM'')]"

definition style_get :: "(string \<times> 'a) list \<Rightarrow> json \<Rightarrow> 'a \<Rightarrow> exn + 'a" where
  \<comment> \<open>\<open>table.get(atype, default)\<close>, where a list or a dict cannot be hashed\<close>
  "style_get table a d =
     (case a of
        JStr t \<Rightarrow> Inr (case map_of table t of Some v \<Rightarrow> v | None \<Rightarrow> d)
      | JArr _ \<Rightarrow> Inl (TypeError (''unhashable type: '' @ quoted ''list''))
      | JObj _ \<Rightarrow> Inl (TypeError (''unhashable type: '' @ quoted ''dict''))
      | _ \<Rightarrow> Inr d)"

definition BOX_PAD :: rat where "BOX_PAD = 4"
definition FS_LBL :: rat where "FS_LBL = 58/10"
definition FS_QT :: rat where "FS_QT = 64/10"
definition FS_TX :: rat where "FS_TX = 69/10"
definition LH_QT :: rat where "LH_QT = FS_QT * (132/100)"
definition LH_TX :: rat where "LH_TX = FS_TX * (136/100)"

definition trunc :: "rat \<Rightarrow> int" where
  \<comment> \<open>\<open>int(x)\<close> of a number: towards zero\<close>
  "trunc x = (if x < 0 then - \<lfloor>- x\<rfloor> else \<lfloor>x\<rfloor>)"

text \<open>
  What the renderer takes from outside: \<open>textwrap.wrap\<close>, the hits of
  \<open>page.search_for\<close> on the page of an index, the text of a \<open>float\<close> and the
  depth left to the interpreter where a theme is formatted (\<open>f"#{t}"\<close> is \<open>str(t)\<close>
  after the \<open>#\<close>), and the one-character text U+2026 that ends a shortened quote.
\<close>

record renv =
  wrap :: "string \<Rightarrow> int \<Rightarrow> string list"
  search_for :: "nat \<Rightarrow> string \<Rightarrow> rect list"
  theme_float :: "string \<Rightarrow> string"
  fmt_depth :: nat
  ellipsis :: string

definition box_height :: "nat \<Rightarrow> nat \<Rightarrow> bool \<Rightarrow> rat" where
  "box_height n_quote n_ann has_themes =
     BOX_PAD * 2 + FS_LBL + 25/10
     + of_nat n_quote * LH_QT + (if n_quote \<noteq> 0 then 2 else 0)
     + of_nat n_ann * LH_TX
     + (if has_themes then 8 else 0)"

definition place :: "rat \<Rightarrow> rat \<Rightarrow> rat \<Rightarrow> rat" where
  \<comment> \<open>\<open>if margin_y + box_h > ph - 12: margin_y = 14.0\<close>\<close>
  "place ph margin_y box_h = (if margin_y + box_h > ph - 12 then 14 else margin_y)"

fun quote_text :: "rat \<Rightarrow> rat \<Rightarrow> string list \<Rightarrow> op list" where
  "quote_text tx ty [] = []"
| "quote_text tx ty (ql # rest) =
     InsertText tx (ty + FS_QT) ql FS_QT (28/100, 30/100, 40/100) # quote_text tx (ty + LH_QT) rest"

fun body_text :: "rat \<Rightarrow> rat \<Rightarrow> rat \<Rightarrow> string list \<Rightarrow> op list" where
  \<comment> \<open>the loop that breaks at the first line that would cross \<open>box.y1 - 2\<close>\<close>
  "body_text tx y1 ty [] = []"
| "body_text tx y1 ty (al # rest) =
     (if ty + LH_TX > y1 - 2 then []
      else InsertText tx (ty + FS_TX) al FS_TX (8/100, 10/100, 16/100) # body_text tx y1 (ty + LH_TX) rest)"

definition str_field :: "(string \<times> json) list \<Rightarrow> string \<Rightarrow> exn + string" where
  \<comment> \<open>\<open>ann.get(k, "").strip()\<close>\<close>
  "str_field ann k =
     (case dict_get ann k (JStr []) of
        JStr s \<Rightarrow> Inr (py_strip s)
      | v \<Rightarrow> Inl (no_attribute v ''strip''))"

definition draw_box ::
  "rat \<Rightarrow> rat \<Rightarrow> rat \<Rightarrow> rat \<Rightarrow> colour \<Rightarrow> colour \<Rightarrow> string \<Rightarrow> string list \<Rightarrow> string list \<Rightarrow> string
     \<Rightarrow> op list \<times> rat" where
  \<comment> \<open>from \<open>box_h\<close> to the end of the turn: the box, its texts, and the new \<open>margin_y\<close>\<close>
  "draw_box ph BOX_X BOX_W margin_y fill accent label quote_lines ann_lines theme_str =
     (let box_h = box_height (length quote_lines) (length ann_lines) (theme_str \<noteq> []);
          y0 = place ph margin_y box_h;
          y1 = y0 + box_h;
          tx = BOX_X + 5;
          ty = y0 + BOX_PAD;
          ty1 = ty + FS_LBL + 25/10;
          ty2 = ty1 + of_nat (length quote_lines) * LH_QT + (if quote_lines \<noteq> [] then 2 else 0)
      in ([Box (BOX_X, y0, BOX_X + BOX_W, y1) fill accent,
           Bar (BOX_X, y0, BOX_X + 28/10, y1) accent,
           InsertText tx (ty + FS_LBL) label FS_LBL accent]
          @ quote_text tx ty1 quote_lines
          @ body_text tx y1 ty2 ann_lines
          @ (if theme_str \<noteq> [] then [InsertText tx (y1 - 35/10) theme_str 5 accent] else []),
          y1 + 35/10))"

definition render_ann ::
  "renv \<Rightarrow> nat \<Rightarrow> rat \<Rightarrow> rat \<Rightarrow> rat \<Rightarrow> int \<Rightarrow> rat \<Rightarrow> (string \<times> json) list \<Rightarrow> exn + (op list \<times> rat)" where
  \<comment> \<open>one turn of the loop over the annotations of a page: what it draws, and the new \<open>margin_y\<close>\<close>
  \<open>render_ann R pg_idx ph BOX_X BOX_W CHARS margin_y ann =
     (let a = dict_get ann ''type'' (JStr ''notation'')
      in raising (str_field ann ''quote'') (\<lambda>quote'.
         raising (str_field ann ''annotation'') (\<lambda>text.
         (let themes = (case dict_get ann ''themes'' (JArr []) of JArr xs \<Rightarrow> xs | _ \<Rightarrow> [])
          in raising (style_get ACCENT a (45/100, 50/100, 58/100)) (\<lambda>accent.
             raising (style_get FILL a (95/100, 95/100, 97/100)) (\<lambda>fill.
             raising (style_get LABEL a ''ANN'') (\<lambda>label.
             (let hl = (if quote' \<noteq> [] \<and> length quote' \<ge> 5
                        then map (\<lambda>r. Highlight r fill accent) (take 5 (search_for R pg_idx quote'))
                        else []);
                  ann_lines = wrap R text CHARS;
                  q_short = (if length quote' > 50 then take 50 quote' @ ellipsis R else quote');
                  quote_lines = (if quote' \<noteq> [] then wrap R (''"'' @ q_short @ ''"'') CHARS else [])
              in raising (if themes \<noteq> []
                          then raising (collect (map (py_str (fmt_depth R) (theme_float R)) (take 4 themes)))
                                 (\<lambda>ts. Inr (join ''  '' (map (\<lambda>t. ''#'' @ t) ts)))
                          else Inr []) (\<lambda>theme_str.
                 (let drawn = draw_box ph BOX_X BOX_W margin_y fill accent label quote_lines ann_lines theme_str
                  in Inr (hl @ fst drawn, snd drawn)))))))))))\<close>

fun render_anns ::
  "renv \<Rightarrow> nat \<Rightarrow> rat \<Rightarrow> rat \<Rightarrow> rat \<Rightarrow> int \<Rightarrow> rat \<Rightarrow> (string \<times> json) list list \<Rightarrow> exn + op list" where
  "render_anns R pg_idx ph BOX_X BOX_W CHARS margin_y [] = Inr []"
| "render_anns R pg_idx ph BOX_X BOX_W CHARS margin_y (ann # anns) =
     (case render_ann R pg_idx ph BOX_X BOX_W CHARS margin_y ann of
        Inl e \<Rightarrow> Inl e
      | Inr (ops, margin_y') \<Rightarrow>
          (case render_anns R pg_idx ph BOX_X BOX_W CHARS margin_y' anns of
             Inl e \<Rightarrow> Inl e
           | Inr later \<Rightarrow> Inr (ops @ later)))"

definition render_page :: "renv \<Rightarrow> nat \<Rightarrow> rat \<times> rat \<Rightarrow> (string \<times> json) list list \<Rightarrow> exn + op list" where
  "render_page R pg_idx page anns =
     (let pw = fst page; ph = snd page;
          margin_w = min (pw * (23/100)) 180;
          sep_x = pw - margin_w - 2;
          BOX_X = sep_x + 3;
          BOX_W = margin_w - 5;
          CHARS = max (trunc (BOX_W / (FS_TX * (52/100)))) 14
      in case render_anns R pg_idx ph BOX_X BOX_W CHARS 14 anns of
           Inl e \<Rightarrow> Inl e
         | Inr ops \<Rightarrow> Inr (Separator sep_x 14 (ph - 14) # ops))"

definition page_index :: "json \<Rightarrow> exn + int" where
  \<comment> \<open>\<open>page_num - 1\<close> on a key of \<open>by_page\<close>\<close>
  "page_index k =
     (case k of
        JInt n \<Rightarrow> Inr (n - 1)
      | _ \<Rightarrow> Inl (TypeError (''unsupported operand type(s) for -: '' @ quoted (type_name k) @ '' and '' @ quoted ''int'')))"

datatype rdoc = Unreadable string | Doc "(rat \<times> rat) list"

text \<open>
  The document being drawn on is the list of its pages, each with the calls made on it so
  far; the bytes that \<open>doc.save\<close> returns are taken to be given by those.
\<close>

fun render_groups ::
  "renv \<Rightarrow> (rat \<times> rat) list \<Rightarrow> (json \<times> (string \<times> json) list list) list \<Rightarrow> op list list \<Rightarrow> exn + op list list" where
  "render_groups R pages [] drawn = Inr drawn"
| "render_groups R pages ((page_num, anns) # groups) drawn =
     (case page_index page_num of
        Inl e \<Rightarrow> Inl e
      | Inr pg_idx \<Rightarrow>
          if pg_idx < 0 \<or> pg_idx \<ge> int (length pages) then render_groups R pages groups drawn
          else
            (case render_page R (nat pg_idx) (pages ! nat pg_idx) anns of
               Inl e \<Rightarrow> Inl e
             | Inr ops \<Rightarrow>
                 render_groups R pages groups (drawn [nat pg_idx := drawn ! nat pg_idx @ ops])))"

definition render_pdf :: "renv \<Rightarrow> rdoc \<Rightarrow> (json \<times> (string \<times> json) list list) list \<Rightarrow> exn + op list list" where
  "render_pdf R pdf_bytes by_page =
     (case pdf_bytes of
        Unreadable m \<Rightarrow> Inl (RuntimeError m)
      | Doc pages \<Rightarrow> render_groups R pages by_page (replicate (length pages) []))"

section \<open>The render call: \<open>build_pdf\<close>\<close>

text \<open>
  \<open>int\<close> of a text. Around the literal it skips the white space of ASCII and, in the
  range of this model, U+0085 and U+00A0; the separators U+001C to U+001F, which
  \<open>str.strip\<close> removes, it does not skip. The literal is a sign and a run of digits
  with single underscores inside. The run is read first: a run that is out of shape is
  an invalid literal, a run of more than \<^const>\<open>MAX_STR_DIGITS\<close> digits is refused for
  its length, and only then does what follows the run count.
\<close>

definition int_space :: "char \<Rightarrow> bool" where
  "int_space c = (let n = code c in (9 \<le> n \<and> n \<le> 13) \<or> n = 32 \<or> n = 133 \<or> n = 160)"

fun digit_groups :: "string \<Rightarrow> bool" where
  \<comment> \<open>digits, with single underscores between them\<close>
  "digit_groups [] = False"
| "digit_groups [c] = is_digit c"
| "digit_groups (c # d # r) =
     (is_digit c \<and> (if d = CHR ''_'' then digit_groups r else digit_groups (d # r)))"

definition py_int :: "string \<Rightarrow> exn + int" where
  \<comment> \<open>\<open>int(s)\<close> of a text\<close>
  "py_int s =
     (let t = dropWhile int_space s;
          body = (case t of c # r \<Rightarrow> if c = CHR ''+'' \<or> c = CHR ''-'' then r else t | [] \<Rightarrow> []);
          run = takeWhile (\<lambda>c. is_digit c \<or> c = CHR ''_'') body;
          rest = dropWhile (\<lambda>c. is_digit c \<or> c = CHR ''_'') body;
          digits = filter is_digit run;
          invalid = Inl (ValueError (''invalid literal for int() with base 10: '' @ py_repr_str s))
      in if \<not> digit_groups run then invalid
         else if length digits > MAX_STR_DIGITS then Inl (literal_too_long (length digits))
         else if dropWhile int_space rest \<noteq> [] then invalid
         else Inr (if take 1 t = ''-'' then - digit_val digits else digit_val digits))"

definition int_field :: "string option \<Rightarrow> int \<Rightarrow> exn + int" where
  \<comment> \<open>\<open>int(request.form.get(name, d) or d)\<close>\<close>
  "int_field f d =
     (case f of
        None \<Rightarrow> Inr d
      | Some s \<Rightarrow> if s = [] then Inr d else py_int s)"

text \<open>
  The answers of the handler. The file it sends is what \<open>doc.save\<close> writes for the
  document after the drawing calls of \<^const>\<open>render_pdf\<close>; those bytes are the
  library's, and the model stops at the calls.
\<close>

datatype response =
    Rendered "op list list"
      \<comment> \<open>the annotated document, sent as a file: the drawing calls made on each page of it\<close>
  | Status nat string
      \<comment> \<open>a text with an error status\<close>
  | Unhandled exn
      \<comment> \<open>an exception that leaves the handler\<close>
  | Unmodelled
      \<comment> \<open>a page tag that is a \<open>float\<close>: the \<open>dict\<close> compares it with the integers in floating point\<close>

definition page_key :: "json \<Rightarrow> response + json" where
  \<comment> \<open>the key of \<open>by_page\<close> that a page tag is: \<open>True\<close> and \<open>1\<close> are one key, as are \<open>False\<close> and \<open>0\<close>\<close>
  "page_key pg =
     (case pg of
        JBool b \<Rightarrow> Inr (JInt (if b then 1 else 0))
      | JFloat _ \<Rightarrow> Inl Unmodelled
      | JArr _ \<Rightarrow> Inl (Unhandled (TypeError (''unhashable type: '' @ quoted ''list'')))
      | JObj _ \<Rightarrow> Inl (Unhandled (TypeError (''unhashable type: '' @ quoted ''dict'')))
      | _ \<Rightarrow> Inr pg)"

definition setdefault_append :: "'k \<Rightarrow> 'v \<Rightarrow> ('k \<times> 'v list) list \<Rightarrow> ('k \<times> 'v list) list" where
  \<comment> \<open>\<open>by_page.setdefault(pg, []).append(a)\<close>\<close>
  "setdefault_append k v m = AList.update k ((case map_of m k of Some vs \<Rightarrow> vs | None \<Rightarrow> []) @ [v]) m"

fun group_by_page ::
  "json list \<Rightarrow> (json \<times> (string \<times> json) list list) list \<Rightarrow> response + (json \<times> (string \<times> json) list list) list" where
  "group_by_page [] by_page = Inr by_page"
| "group_by_page (a # rest) by_page =
     (case a of
        JObj kvs \<Rightarrow>
          (case page_key (dict_get kvs ''page'' (JInt 0)) of
             Inl r \<Rightarrow> Inl r
           | Inr pg \<Rightarrow> group_by_page rest (setdefault_append pg kvs by_page))
      | _ \<Rightarrow> Inl (Unhandled (no_attribute a ''get'')))"

definition build_pdf ::
  "(string \<Rightarrow> json decoded) \<Rightarrow> renv \<Rightarrow> rdoc option \<Rightarrow> string option \<Rightarrow> string option \<Rightarrow> string option \<Rightarrow> response" where
  "build_pdf loads R pdf annotations page_from page_to =
     (case pdf of
        None \<Rightarrow> Status 400 ''No PDF''
      | Some pdf_bytes \<Rightarrow>
          (let ann_json = (case annotations of Some s \<Rightarrow> s | None \<Rightarrow> ''[]'')
           in case int_field page_from 1 of
                Inl e \<Rightarrow> Unhandled e
              | Inr pf \<Rightarrow>
                 (case int_field page_to 9999 of
                    Inl e \<Rightarrow> Unhandled e
                  | Inr pt \<Rightarrow>
                     (case loads ann_json of
                        JSONDecodeError \<Rightarrow> Status 400 ''Invalid annotations JSON''
                      | Raised e \<Rightarrow> Unhandled e
                      | Decoded raw_anns \<Rightarrow>
                         (case py_iter raw_anns of
                            Inl e \<Rightarrow> Unhandled e
                          | Inr items \<Rightarrow>
                             (case group_by_page items [] of
                                Inl r \<Rightarrow> r
                              | Inr by_page \<Rightarrow>
                                 (case render_pdf R pdf_bytes by_page of
                                    Inl e \<Rightarrow> Status 500 (''PDF render error: '' @ exn_msg e)
                                  | Inr out_bytes \<Rightarrow> Rendered out_bytes)))))))"

section \<open>The specification's reading of the repairer\<close>

















section \<open>The values that \<open>str\<close> prints\<close>






section \<open>Inputs of the examples\<close>










definition exact_pct :: "nat \<Rightarrow> nat \<Rightarrow> int" where
  \<comment> \<open>the percentage without rounding error\<close>
  "exact_pct i n = \<lfloor>(rat_of_nat i / rat_of_nat n) * 92\<rfloor>"

definition one_record :: string where
  \<open>one_record = ''[{"type":"summary","quote":"one","annotation":"first","themes":[]}]''\<close>

definition flaky :: env where
  \<comment> \<open>a client that answers, except for the page whose text is \<open>two\<close>\<close>
  "flaky =
     \<lparr> decode = json_loads, float_text = (\<lambda>l. l), str_depth = 100,
       post = (\<lambda>m p. if p = build_prompt ''two'' ''do'' 2 then ConnectionError
                      else Body (Some (JObj [(''response'', JStr one_record)]))),
       pct = exact_pct \<rparr>"

definition scalar :: env where
  \<comment> \<open>a model whose whole output is \<open>42\<close>\<close>
  "scalar =
     \<lparr> decode = json_loads, float_text = (\<lambda>l. l), str_depth = 100,
       post = (\<lambda>m p. Body (Some (JObj [(''response'', JStr ''42'')]))),
       pct = exact_pct \<rparr>"

definition plain :: renv where
  \<comment> \<open>a page without hits, and \<open>textwrap.wrap\<close> as it is on an empty text and on one short word\<close>
  "plain =
     \<lparr> wrap = (\<lambda>s w. if s = [] then [] else [s]), search_for = (\<lambda>i q. []),
       theme_float = (\<lambda>l. l), fmt_depth = 100, ellipsis = ''...'' \<rparr>"

section \<open>The loop of the generator, one page at a time\<close>

text \<open>
  What one turn of the loop adds to the run, and whether the loop goes on after it.
  \<^const>\<open>annotate_pages\<close> is these turns one after the other (\<open>annotate_pages_step\<close>
  below).
\<close>

definition page_steps :: "env \<Rightarrow> string \<Rightarrow> string \<Rightarrow> int \<Rightarrow> int \<Rightarrow> nat \<Rightarrow> nat \<Rightarrow> page_text \<Rightarrow> step list \<times> bool" where
  "page_steps E model instructions p_start p_end n i page =
     (let pg_num = p_start + int i + 1;
          head = [Yield (Progress (pct E i n) (Annotating pg_num p_end)), Yield (PageStart pg_num)]
      in case page of
           ExtractFails m \<Rightarrow> (head @ [Yield (Error m)], False)
         | Extracted t \<Rightarrow>
             (let text = py_strip (case t of None \<Rightarrow> [] | Some x \<Rightarrow> x)
              in if text = [] then (head @ [Yield (Annotation pg_num no_text)], True)
                 else
                   (let text' = (if length text > 4000 then take 4000 text @ ''\<newline>[truncated]'' else text);
                        prompt = build_prompt text' instructions pg_num
                    in case call_ollama E model prompt of
                         Inl e \<Rightarrow> (head @ [Post pg_num model prompt, Yield (Error (exn_msg e))], False)
                       | Inr anns \<Rightarrow>
                           (head @ [Post pg_num model prompt] @ map (\<lambda>a. Yield (Annotation pg_num a)) anns, True))))"

definition is_blank :: "page_text \<Rightarrow> bool" where
  \<comment> \<open>the page has no text, or white space only\<close>
  "is_blank page = (case page of Extracted t \<Rightarrow> py_strip (case t of None \<Rightarrow> [] | Some x \<Rightarrow> x) = [] | ExtractFails _ \<Rightarrow> False)"

definition page_annotations :: "int \<Rightarrow> step list \<Rightarrow> annotation list" where
  \<comment> \<open>the records of the annotation events of a page, in the order of the run\<close>
  "page_annotations pg tr = concat (map (\<lambda>s. case s of Yield (Annotation q a) \<Rightarrow> if q = pg then [a] else [] | _ \<Rightarrow> []) tr)"

definition fatal_text :: "reply \<Rightarrow> string" where
  \<comment> \<open>the text of the error event for the two failures of the client that the code names\<close>
  "fatal_text r = (if r = ConnectionError then ''Cannot connect to Ollama. Run: ollama serve''
                   else ''Ollama timed out. Try a faster/smaller model.'')"

definition boxes_placed :: "rat \<Rightarrow> op list \<Rightarrow> bool" where
  \<comment> \<open>every margin box among the calls starts at the top inset or ends above the bottom inset\<close>
  "boxes_placed ph ops =
     (\<forall>x0 y0 x1 y1 f a. Box (x0, y0, x1, y1) f a \<in> set ops \<longrightarrow> (y0 = 14 \<or> y1 \<le> ph - 12) \<and> y0 \<le> y1)"

definition three_pages :: pdf where
  "three_pages = Pdf [Extracted (Some ''one''), Extracted (Some ''two''), Extracted (Some ''three'')]"

definition summary_one :: annotation where
  "summary_one = \<lparr> atype = ''summary'', quote = ''one'', annotation = ''first'', themes = [] \<rparr>"

definition blank_pages :: pdf where
  "blank_pages = Pdf [Extracted (Some ''  ''), Extracted None]"

definition two_notes :: "(json \<times> (string \<times> json) list list) list" where
  "two_notes = [(JInt 1, [[(''annotation'', JStr ''x'')], [(''annotation'', JStr ''y'')]])]"

definition cut_reply :: string where
  \<open>cut_reply = ''[{"quote":"a","themes":[]},{"quote":"b''\<close>

definition cut_after_two :: string where
  \<open>cut_after_two = ''[{"q":"a","t":[]},{"q":"b","t":[]},{"q":"c''\<close>

definition fatal_then_blank :: pdf where
  \<comment> \<open>\<^const>\<open>flaky\<close> fails on the second page, and the third has no text\<close>
  "fatal_then_blank = Pdf [Extracted (Some ''one''), Extracted (Some ''two''), Extracted None]"

definition one_note :: string where
  \<open>one_note = ''[{"page": 1, "annotation": "x"}]''\<close>

section \<open>The clock of the decoder\<close>

text \<open>
  Every scanner consumes input, so the descent needs no more ticks than twice the length
  of the text: the result of \<^const>\<open>json_loads\<close> is the same on any longer clock, and
  a \<^const>\<open>JSONDecodeError\<close> of it is a text the decoder refuses, never a clock that ran out.
\<close>

lemma skip_ws_length: "length (skip_ws s) \<le> length s"
  by (simp add: skip_ws_def length_dropWhile_le)

lemma cons_fst_Some: "cons_fst c r = Some (t, r') \<Longrightarrow> \<exists>t'. r = Some (t', r')"
  by (auto simp: cons_fst_def split: option.splits)

lemma scan_string_shrinks: "scan_string r = Some (t, r') \<Longrightarrow> length r' < length r"
proof (induction r arbitrary: t rule: scan_string.induct)
  case 1
  then show ?case by simp
next
  case (2 c cs)
  show ?case
  proof (cases "c = CHR 0x22")
    case True
    with "2.prems" show ?thesis by simp
  next
    case notq: False
    show ?thesis
    proof (cases "c = CHR 0x5C")
      case True
      with notq "2.prems" obtain e r where cs: "cs = e # r"
        by (cases cs) auto
      show ?thesis
      proof (cases "e = CHR ''u''")
        case u: True
        with True notq cs "2.prems" obtain h1 h2 h3 h4 r2 n where
          r: "r = h1 # h2 # h3 # h4 # r2" and h: "hex4 h1 h2 h3 h4 = Some n" and n: "n < 256"
          and s: "cons_fst (char_of n) (scan_string r2) = Some (t, r')"
          by (auto split: list.splits option.splits if_splits)
        from cons_fst_Some [OF s] obtain t' where t': "scan_string r2 = Some (t', r')" by blast
        have "length r' < length r2"
          by (rule "2.IH"(1) [OF notq True cs u _ _ _ _ h n t']) (simp_all add: r)
        then show ?thesis using cs r by simp
      next
        case nu: False
        with True notq cs "2.prems" obtain x where
          x: "unescape e = Some x" and s: "cons_fst x (scan_string r) = Some (t, r')"
          by (auto split: option.splits)
        from cons_fst_Some [OF s] obtain t' where "scan_string r = Some (t', r')" by blast
        from "2.IH"(2) [OF notq True cs nu x this] show ?thesis using cs by simp
      qed
    next
      case False
      with notq "2.prems" have c: "\<not> code c < 32" and s: "cons_fst c (scan_string cs) = Some (t, r')"
        by (auto split: if_splits)
      from cons_fst_Some [OF s] obtain t' where "scan_string cs = Some (t', r')" by blast
      from "2.IH"(3) [OF notq False c this] show ?thesis by simp
    qed
  qed
qed

lemma literal_shrinks: "w \<noteq> [] \<Longrightarrow> literal w v s = Some (x, r) \<Longrightarrow> length r < length s"
  by (cases s) (auto simp: literal_def split: if_splits)

lemma scan_frac_length: "length (snd (scan_frac s)) \<le> length s"
  using length_dropWhile_le [of is_digit]
  by (auto simp: scan_frac_def le_Suc_eq split: list.splits)

lemma scan_exp_length: "length (snd (scan_exp s)) \<le> length s"
proof -
  have "length (dropWhile is_digit r) \<le> Suc (Suc (length r))" for r
    using length_dropWhile_le [of is_digit r] by simp
  moreover have "length (dropWhile is_digit r) \<le> Suc (length r)" for r
    using length_dropWhile_le [of is_digit r] by simp
  ultimately show ?thesis
    by (auto simp: scan_exp_def split: list.splits)
qed

lemma scan_int_part_shrinks: "scan_int_part s = Some (ip, r) \<Longrightarrow> length r < length s"
proof -
  assume a: "scan_int_part s = Some (ip, r)"
  then obtain d s' where s: "s = d # s'" by (cases s) (auto simp: scan_int_part_def)
  show ?thesis
  proof (cases "d = CHR ''0''")
    case True
    with a s show ?thesis by (simp add: scan_int_part_def)
  next
    case False
    with a s have "is_digit d" and "r = dropWhile is_digit s"
      by (auto simp: scan_int_part_def split: if_splits)
    then show ?thesis using s length_dropWhile_le [of is_digit s'] by simp
  qed
qed

lemma scan_number_shrinks: "scan_number s = Decoded (v, r) \<Longrightarrow> length r < length s"
proof -
  assume a: "scan_number s = Decoded (v, r)"
  define s1 where "s1 = (case s of c # r \<Rightarrow> if c = CHR ''-'' then r else s | [] \<Rightarrow> s)"
  have s1: "length s1 \<le> length s" by (auto simp: s1_def split: list.splits)
  from a obtain ip s2 where ip: "scan_int_part s1 = Some (ip, s2)"
    and r: "r = s2 \<or> r = snd (scan_exp (snd (scan_frac s2)))"
    by (auto simp: scan_number_def s1_def Let_def split: list.splits option.splits if_splits prod.splits)
  from scan_int_part_shrinks [OF ip] have "length s2 < length s" using s1 by simp
  moreover have "length (snd (scan_exp (snd (scan_frac s2)))) \<le> length s2"
    using scan_exp_length [of "snd (scan_frac s2)"] scan_frac_length [of s2] by simp
  ultimately show ?thesis using r by auto
qed

lemma scan_atom_shrinks: "scan_atom s = Decoded (v, r) \<Longrightarrow> length r < length s"
  by (auto simp: scan_atom_def or_else_def split: option.splits decoded.splits
           dest: literal_shrinks [rotated] scan_number_shrinks)

lemma parse_shrinks:
  "(\<forall>s v r. parse_value n s = Decoded (v, r) \<longrightarrow> length r < length s)
   \<and> (\<forall>s acc v r. parse_elems n s acc = Decoded (v, r) \<longrightarrow> length r < length s)
   \<and> (\<forall>s acc v r. parse_members n s acc = Decoded (v, r) \<longrightarrow> length r < length s)"
proof (induction n)
  case 0
  then show ?case by simp
next
  case (Suc n)
  have val: "length r < length s" if "parse_value (Suc n) s = Decoded (v, r)" for s v r
  proof (cases s)
    case Nil
    with that show ?thesis by simp
  next
    case (Cons c t)
    consider "c = CHR 0x22" | "c \<noteq> CHR 0x22" "c = CHR ''{''" | "c \<noteq> CHR 0x22" "c \<noteq> CHR ''{''" "c = CHR ''[''"
      | "c \<noteq> CHR 0x22" "c \<noteq> CHR ''{''" "c \<noteq> CHR ''[''"
      by blast
    then show ?thesis
    proof cases
      case 1
      with that Cons obtain x where "scan_string t = Some (x, r)"
        by (auto split: option.splits)
      from scan_string_shrinks [OF this] Cons show ?thesis by simp
    next
      case 2
      with that Cons obtain d t' where d: "skip_ws t = d # t'"
        by (cases "skip_ws t") auto
      show ?thesis
      proof (cases "d = CHR ''}''")
        case True
        with that Cons 2 d have "r = t'" by simp
        then show ?thesis using skip_ws_length [of t] d Cons by simp
      next
        case False
        with that Cons 2 d have "parse_members n (d # t') [] = Decoded (v, r)" by simp
        with Suc.IH have "length r < length (d # t')" by blast
        then show ?thesis using skip_ws_length [of t] d Cons by simp
      qed
    next
      case 3
      with that Cons obtain d t' where d: "skip_ws t = d # t'"
        by (cases "skip_ws t") auto
      show ?thesis
      proof (cases "d = CHR '']''")
        case True
        with that Cons 3 d have "r = t'" by simp
        then show ?thesis using skip_ws_length [of t] d Cons by simp
      next
        case False
        with that Cons 3 d have "parse_elems n (d # t') [] = Decoded (v, r)" by simp
        with Suc.IH have "length r < length (d # t')" by blast
        then show ?thesis using skip_ws_length [of t] d Cons by simp
      qed
    next
      case 4
      with that Cons have "scan_atom s = Decoded (v, r)" by simp
      then show ?thesis by (rule scan_atom_shrinks)
    qed
  qed
  have elems: "length r < length s" if "parse_elems (Suc n) s acc = Decoded (v, r)" for s acc v r
  proof -
    from that obtain x r1 where x: "parse_value n s = Decoded (x, r1)"
      by (auto split: decoded.splits)
    with Suc.IH have r1: "length r1 < length s" by blast
    from that x obtain d r2 where d: "skip_ws r1 = d # r2"
      by (cases "skip_ws r1") auto
    have r2: "length r2 < length s" using skip_ws_length [of r1] d r1 by simp
    show ?thesis
    proof (cases "d = CHR '',''")
      case True
      with that x d have "parse_elems n (skip_ws r2) (acc @ [x]) = Decoded (v, r)" by simp
      with Suc.IH have "length r < length (skip_ws r2)" by blast
      then show ?thesis using skip_ws_length [of r2] r2 by simp
    next
      case False
      with that x d have "r = r2" by (auto split: if_splits)
      then show ?thesis using r2 by simp
    qed
  qed
  have members: "length r < length s" if "parse_members (Suc n) s acc = Decoded (v, r)" for s acc v r
  proof -
    from that obtain q t where s: "s = q # t" and q: "q = CHR 0x22"
      by (cases s) (auto split: if_splits)
    from that s q obtain k r1 where k: "scan_string t = Some (k, r1)"
      by (auto split: option.splits)
    from scan_string_shrinks [OF k] have r1: "length r1 < length t" .
    from that s q k obtain c r2 where c: "skip_ws r1 = c # r2" and colon: "c = CHR '':''"
      by (cases "skip_ws r1") (auto split: if_splits)
    have r2: "length r2 < length t" using skip_ws_length [of r1] c r1 by simp
    from that s q k c colon obtain x r3 where x: "parse_value n (skip_ws r2) = Decoded (x, r3)"
      by (auto split: decoded.splits)
    with Suc.IH have "length r3 < length (skip_ws r2)" by blast
    then have r3: "length r3 < length t" using skip_ws_length [of r2] r2 by simp
    from that s q k c colon x obtain d r4 where d: "skip_ws r3 = d # r4"
      by (cases "skip_ws r3") auto
    have r4: "length r4 < length t" using skip_ws_length [of r3] d r3 by simp
    show ?thesis
    proof (cases "d = CHR ''}''")
      case True
      with that s q k c colon x d have "r = r4" by simp
      then show ?thesis using r4 s by simp
    next
      case False
      with that s q k c colon x d have "parse_members n (skip_ws r4) (AList.update k x acc) = Decoded (v, r)"
        by (auto split: if_splits)
      with Suc.IH have "length r < length (skip_ws r4)" by blast
      then show ?thesis using skip_ws_length [of r4] r4 s by simp
    qed
  qed
  from val elems members show ?case by blast
qed

lemma parse_value_shrinks: "parse_value n s = Decoded (v, r) \<Longrightarrow> length r < length s"
  using parse_shrinks by blast

lemma parse_stable:
  "(\<forall>s. 2 * length s + 1 \<le> n \<longrightarrow> parse_value (Suc n) s = parse_value n s)
   \<and> (\<forall>s acc. 2 * length s + 2 \<le> n \<longrightarrow> parse_elems (Suc n) s acc = parse_elems n s acc)
   \<and> (\<forall>s acc. 2 * length s + 2 \<le> n \<longrightarrow> parse_members (Suc n) s acc = parse_members n s acc)"
proof (induction n)
  case 0
  then show ?case by simp
next
  case (Suc n)
  have val: "parse_value (Suc (Suc n)) s = parse_value (Suc n) s" if n: "2 * length s + 1 \<le> Suc n" for s
  proof (cases s)
    case Nil
    then show ?thesis by simp
  next
    case (Cons c t)
    have sub: "parse_members (Suc n) (d # t') [] = parse_members n (d # t') []
               \<and> parse_elems (Suc n) (d # t') [] = parse_elems n (d # t') []"
      if "skip_ws t = d # t'" for d t'
    proof -
      have "length (d # t') \<le> length t" using skip_ws_length [of t] that by simp
      then have "2 * length (d # t') + 2 \<le> n" using n Cons by simp
      with Suc.IH show ?thesis by blast
    qed
    show ?thesis
      unfolding Cons parse_value.simps(2) [of "Suc n"] parse_value.simps(2) [of n]
      using sub by (auto simp del: parse_value.simps parse_elems.simps parse_members.simps split: list.splits)
  qed
  have elems: "parse_elems (Suc (Suc n)) s acc = parse_elems (Suc n) s acc"
    if n: "2 * length s + 2 \<le> Suc n" for s acc
  proof -
    from n Suc.IH have v: "parse_value (Suc n) s = parse_value n s" by simp
    note L = parse_elems.simps(2) [of "Suc n" s acc] and R = parse_elems.simps(2) [of n s acc]
    show ?thesis
    proof (cases "parse_value n s")
      case JSONDecodeError
      with v show ?thesis
        unfolding L R by simp
    next
      case (Raised e)
      with v show ?thesis
        unfolding L R by simp
    next
      case (Decoded p)
      obtain x r1 where p: "p = (x, r1)" by (cases p)
      from Decoded p have r1: "length r1 < length s" using parse_value_shrinks by blast
      have next_elems: "parse_elems (Suc n) (skip_ws r2) (acc @ [x]) = parse_elems n (skip_ws r2) (acc @ [x])"
        if "skip_ws r1 = d # r2" for d r2
      proof -
        have "length r2 < length r1" using skip_ws_length [of r1] that by simp
        then have "length (skip_ws r2) + 2 \<le> length s" using skip_ws_length [of r2] r1 by simp
        then have "2 * length (skip_ws r2) + 2 \<le> n" using n by simp
        with Suc.IH show ?thesis by blast
      qed
      show ?thesis
        unfolding L R v Decoded p
        using next_elems by (auto simp del: parse_value.simps parse_elems.simps parse_members.simps split: list.splits)
    qed
  qed
  have members: "parse_members (Suc (Suc n)) s acc = parse_members (Suc n) s acc"
    if n: "2 * length s + 2 \<le> Suc n" for s acc
  proof (cases s)
    case Nil
    then show ?thesis by simp
  next
    case (Cons q t)
    note L = parse_members.simps(2) [of "Suc n" "q # t" acc] and R = parse_members.simps(2) [of n "q # t" acc]
    show ?thesis
    proof (cases "scan_string t")
      case None
      then show ?thesis
        unfolding Cons L R by simp
    next
      case (Some p)
      obtain k r1 where p: "p = (k, r1)" by (cases p)
      from Some p have r1: "length r1 < length t" using scan_string_shrinks by blast
      show ?thesis
      proof (cases "skip_ws r1")
        case Nil
        then show ?thesis
          unfolding Cons L R
          by (simp add: Some p)
      next
        case c: (Cons c r2)
        have r2: "length (skip_ws r2) < length t"
          using skip_ws_length [of r1] skip_ws_length [of r2] c r1 by simp
        then have "2 * length (skip_ws r2) + 1 \<le> n" using n Cons by simp
        with Suc.IH have v: "parse_value (Suc n) (skip_ws r2) = parse_value n (skip_ws r2)" by blast
        show ?thesis
        proof (cases "parse_value n (skip_ws r2)")
          case JSONDecodeError
          with v show ?thesis
            unfolding Cons L R
            by (simp add: Some p c del: parse_value.simps parse_elems.simps parse_members.simps)
        next
          case (Raised e)
          with v show ?thesis
            unfolding Cons L R
            by (simp add: Some p c del: parse_value.simps parse_elems.simps parse_members.simps)
        next
          case sv: (Decoded pv)
          obtain x r3 where pv: "pv = (x, r3)" by (cases pv)
          from sv pv have r3: "length r3 < length (skip_ws r2)" using parse_value_shrinks by blast
          have next_members: "parse_members (Suc n) (skip_ws r4) (AList.update k x acc)
                               = parse_members n (skip_ws r4) (AList.update k x acc)"
            if "skip_ws r3 = d # r4" for d r4
          proof -
            have "length r4 < length r3" using skip_ws_length [of r3] that by simp
            then have "length (skip_ws r4) + 2 \<le> length t" using skip_ws_length [of r4] r3 r2 by simp
            then have "2 * length (skip_ws r4) + 2 \<le> n" using n Cons by simp
            with Suc.IH show ?thesis by blast
          qed
          show ?thesis
            unfolding Cons L R
            using next_members
            by (auto simp: Some p c v sv pv simp del: parse_value.simps parse_elems.simps parse_members.simps
                     split: list.splits)
        qed
      qed
    qed
  qed
  from val elems members show ?case by blast
qed

lemma parse_value_more_ticks:
  "2 * length s + 1 \<le> n \<Longrightarrow> parse_value (n + k) s = parse_value n s"
proof (induction k)
  case 0
  then show ?case by simp
next
  case (Suc k)
  have "parse_value (Suc (n + k)) s = parse_value (n + k) s"
    using parse_stable [of "n + k"] Suc.prems by simp
  with Suc show ?case by simp
qed

lemma json_loads_clock:
  "json_loads s =
     (case parse_value (2 * length s + 2 + k) (skip_ws s) of
        JSONDecodeError \<Rightarrow> JSONDecodeError
      | Raised e \<Rightarrow> Raised e
      | Decoded (v, r) \<Rightarrow> if skip_ws r = [] then Decoded v else JSONDecodeError)"
proof -
  have "2 * length (skip_ws s) + 1 \<le> 2 * length s + 2"
    using skip_ws_length [of s] by simp
  then have "parse_value (2 * length s + 2 + k) (skip_ws s) = parse_value (2 * length s + 2) (skip_ws s)"
    by (rule parse_value_more_ticks)
  then show ?thesis by (simp add: json_loads_def)
qed

section \<open>Results on the repairer\<close>

subsection \<open>The texts of the strategies\<close>

text \<open>
  Each text that \<open>_repair_json\<close> tries is the one the specification describes.
\<close>

lemma py_find_prefix: "c \<notin> set pre \<Longrightarrow> py_find c (pre @ c # rest) = int (length pre)"
  by (induction pre) (auto simp: Let_def)

lemma py_find_absent: "c \<notin> set s \<Longrightarrow> py_find c s = -1"
  by (induction s) (auto simp: Let_def)

lemma py_find_present: "c \<in> set s \<Longrightarrow> \<exists>pre rest. s = pre @ c # rest \<and> c \<notin> set pre \<and> py_find c s = int (length pre)"
  using split_list_first [of c s] py_find_prefix by fastforce

lemma py_rfind_suffix: "c \<notin> set rear \<Longrightarrow> py_rfind c (front @ c # rear) = int (length front)"
proof -
  assume a: "c \<notin> set rear"
  have "rev (front @ c # rear) = rev rear @ c # rev front" by simp
  moreover have "c \<notin> set (rev rear)" using a by simp
  ultimately have "py_find c (rev (front @ c # rear)) = int (length rear)"
    using py_find_prefix [of c "rev rear" "rev front"] by simp
  then show ?thesis by (simp add: py_rfind_def Let_def)
qed

lemma py_rfind_absent: "c \<notin> set s \<Longrightarrow> py_rfind c s = -1"
  by (simp add: py_rfind_def py_find_absent)

lemma py_rfind_present: "c \<in> set s \<Longrightarrow> \<exists>front rear. s = front @ c # rear \<and> c \<notin> set rear \<and> py_rfind c s = int (length front)"
  using split_list_last [of c s] py_rfind_suffix by fastforce



lemma array_chunk_whole:
  assumes "\<nexists>pre mid rear. raw = pre @ CHR ''['' # mid @ CHR '']'' # rear"
  shows "array_chunk raw = raw"
proof (rule ccontr)
  assume neq: "array_chunk raw \<noteq> raw"
  then have c: "py_find (CHR ''['') raw \<noteq> -1" "py_rfind (CHR '']'') raw > py_find (CHR ''['') raw"
    by (auto simp: array_chunk_def Let_def split: if_splits)
  from c(1) have "CHR ''['' \<in> set raw" using py_find_absent by blast
  then obtain pre rest where p: "raw = pre @ CHR ''['' # rest" "py_find (CHR ''['') raw = int (length pre)"
    using py_find_present by blast
  have "CHR '']'' \<in> set raw"
  proof (rule ccontr)
    assume "CHR '']'' \<notin> set raw"
    then have "py_rfind (CHR '']'') raw = -1" by (rule py_rfind_absent)
    with c(2) p(2) show False by simp
  qed
  then obtain front rear where f: "raw = front @ CHR '']'' # rear" "py_rfind (CHR '']'') raw = int (length front)"
    using py_rfind_present by blast
  from c(2) p(2) f(2) have lt: "length pre < length front" by simp
  have "take (Suc (length pre)) raw = pre @ [CHR ''['']" using p(1) by simp
  moreover have "take (Suc (length pre)) raw = take (Suc (length pre)) front" using f(1) lt by simp
  ultimately have "front = pre @ CHR ''['' # drop (Suc (length pre)) front"
    by (metis append_take_drop_id append.assoc append_Cons append_Nil)
  with f(1) have "raw = pre @ CHR ''['' # drop (Suc (length pre)) front @ CHR '']'' # rear"
    by (metis append.assoc append_Cons)
  with assms show False by blast
qed























subsection \<open>The order of the strategies\<close>













subsection \<open>The claims on the repairer\<close>






text \<open>
  C8 fails on the code. The array is cut inside its second object, and the first one,
  complete, has a list in it. The last \<open>]\<close> of the text is then the one that closes
  that list, the chunk ends there, before the closing brace of the first object, no
  candidate parses and no fragment matches: the repair fails and the complete object is
  lost. With two complete objects before the cut, the second is lost in the same way.
  Where the complete objects hold no \<open>]\<close>, the cut at the last \<open>}\<close> recovers
  them.
\<close>

theorem truncation_loses_complete_object:
  \<open>array_chunk cut_reply = ''[{"quote":"a","themes":[]''
   \<and> first_parse json_loads (candidates (array_chunk cut_reply)) = None
   \<and> find_objects (array_chunk cut_reply) = []
   \<and> repair_json json_loads cut_reply = Inl (repair_failed cut_reply)
   \<and> repair_json json_loads cut_after_two = Inr (JArr [JObj [(''q'', JStr ''a''), (''t'', JArr [])]])
   \<and> repair_json json_loads ''[{"quote":"a"},{"quote":"b'' = Inr (JArr [JObj [(''quote'', JStr ''a'')]])\<close>
  by (intro conjI; code_simp)
section \<open>Results on the validator\<close>



subsection \<open>Where \<open>str\<close> returns\<close>






lemma collect_nth: "collect rs = Inr xs \<Longrightarrow> length xs = length rs \<and> (\<forall>i < length rs. rs ! i = Inr (xs ! i))"
proof (induction rs arbitrary: xs)
  case Nil
  then show ?case by simp
next
  case (Cons r rs)
  then obtain x ys where r: "r = Inr x" and ys: "collect rs = Inr ys" and xs: "xs = x # ys"
    by (cases r) (auto split: sum.splits)
  from Cons.IH [OF ys] have "length ys = length rs \<and> (\<forall>i < length rs. rs ! i = Inr (ys ! i))" .
  with r xs show ?case by (auto simp: nth_Cons')
qed




lemma py_str_text: "\<exists>s. py_str d fr (JStr t) = Inr s"
  by (simp add: py_str_def)

subsection \<open>One turn of the loop\<close>





subsection \<open>The loop\<close>




section \<open>Results on the generator\<close>

lemma annotate_pages_step:
  "annotate_pages E model ins ps pe n i (page # rest) =
     fst (page_steps E model ins ps pe n i page)
     @ (if snd (page_steps E model ins ps pe n i page)
        then annotate_pages E model ins ps pe n (Suc i) rest else [])"
  by (simp add: page_steps_def Let_def split: page_text.splits sum.splits)

declare annotate_pages.simps(2) [simp del]

lemma call_ollama_down:
  "post E m p = ConnectionError \<Longrightarrow>
     call_ollama E m p = Inl (RuntimeError ''Cannot connect to Ollama. Run: ollama serve'')"
  "post E m p = Timeout \<Longrightarrow>
     call_ollama E m p = Inl (RuntimeError ''Ollama timed out. Try a faster/smaller model.'')"
  by (simp_all add: call_ollama_def)

lemma page_steps_go_no_error:
  "snd (page_steps E model ins ps pe n i page) \<Longrightarrow> Yield (Error t) \<notin> set (fst (page_steps E model ins ps pe n i page))"
  by (auto simp: page_steps_def Let_def split: page_text.splits sum.splits if_splits)

lemma page_steps_stop:
  "\<not> snd (page_steps E model ins ps pe n i page) \<Longrightarrow>
     \<exists>front t. fst (page_steps E model ins ps pe n i page) = front @ [Yield (Error t)]
        \<and> (\<forall>u. Yield (Error u) \<notin> set front) \<and> Yield Done \<notin> set front"
  by (auto simp: page_steps_def Let_def split: page_text.splits sum.splits if_splits)

lemma page_steps_numbers:
  "Post q m p \<in> set (fst (page_steps E model ins ps pe n i page)) \<Longrightarrow> q = ps + int i + 1"
  "Yield (PageStart q) \<in> set (fst (page_steps E model ins ps pe n i page)) \<Longrightarrow> q = ps + int i + 1"
  "Yield (Annotation q a) \<in> set (fst (page_steps E model ins ps pe n i page)) \<Longrightarrow> q = ps + int i + 1"
  by (auto simp: page_steps_def Let_def split: page_text.splits sum.splits if_splits)

lemma page_steps_progress:
  "Yield (Progress c l) \<in> set (fst (page_steps E model ins ps pe n i page)) \<Longrightarrow> c = pct E i n"
  by (auto simp: page_steps_def Let_def split: page_text.splits sum.splits if_splits)

lemma page_steps_no_done: "Yield Done \<notin> set (fst (page_steps E model ins ps pe n i page))"
  by (auto simp: page_steps_def Let_def split: page_text.splits sum.splits if_splits)

lemma page_steps_start:
  "Yield (PageStart (ps + int i + 1)) \<in> set (fst (page_steps E model ins ps pe n i page))"
  by (auto simp: page_steps_def Let_def split: page_text.splits sum.splits if_splits)

lemma page_steps_blank:
  "is_blank page \<Longrightarrow>
     page_steps E model ins ps pe n i page =
       ([Yield (Progress (pct E i n) (Annotating (ps + int i + 1) pe)),
         Yield (PageStart (ps + int i + 1)),
         Yield (Annotation (ps + int i + 1) no_text)], True)"
  by (auto simp: page_steps_def is_blank_def Let_def split: page_text.splits)

lemma page_steps_failing_post:
  assumes "Post q m p \<in> set (fst (page_steps E model ins ps pe n i page))"
    and "post E m p = ConnectionError \<or> post E m p = Timeout"
  shows "page_steps E model ins ps pe n i page =
           ([Yield (Progress (pct E i n) (Annotating q pe)), Yield (PageStart q),
             Post q m p, Yield (Error (fatal_text (post E m p)))], False)"
  using assms call_ollama_down [of E m p]
  by (auto simp: page_steps_def Let_def fatal_text_def split: page_text.splits sum.splits if_splits)

lemma split_after_prefix:
  assumes "xs @ ys = b @ x # a" and "x \<notin> set xs"
  shows "\<exists>b'. b = xs @ b' \<and> ys = b' @ x # a"
  using assms
proof (induction xs arbitrary: b)
  case Nil
  then show ?case by simp
next
  case (Cons y xs)
  then show ?case by (cases b) auto
qed

lemma annotate_pages_numbers:
  "Post q m p \<in> set (annotate_pages E model ins ps pe n i pages) \<Longrightarrow> ps + int i < q"
  "Yield (PageStart q) \<in> set (annotate_pages E model ins ps pe n i pages) \<Longrightarrow> ps + int i < q"
  "Yield (Annotation q a) \<in> set (annotate_pages E model ins ps pe n i pages) \<Longrightarrow> ps + int i < q"
proof (induction pages arbitrary: i)
  case Nil
  { case 1 then show ?case by simp }
  { case 2 then show ?case by simp }
  { case 3 then show ?case by simp }
next
  case (Cons page rest)
  { case 1
    then show ?case
      using Cons.IH(1) [of "Suc i"] page_steps_numbers(1) [of q m p E model ins ps pe n i page]
      by (auto simp: annotate_pages_step split: if_splits) }
  { case 2
    then show ?case
      using Cons.IH(2) [of "Suc i"] page_steps_numbers(2) [of q E model ins ps pe n i page]
      by (auto simp: annotate_pages_step split: if_splits) }
  { case 3
    then show ?case
      using Cons.IH(3) [of "Suc i"] page_steps_numbers(3) [of q a E model ins ps pe n i page]
      by (auto simp: annotate_pages_step split: if_splits) }
qed

lemma annotate_pages_failing_post:
  assumes "annotate_pages E model ins ps pe n i pages = before @ Post pg m p # after"
    and "post E m p = ConnectionError \<or> post E m p = Timeout"
  shows "after = [Yield (Error (fatal_text (post E m p)))]
         \<and> (\<forall>t. Yield (Error t) \<notin> set before)
         \<and> (\<forall>q m' p'. Post q m' p' \<in> set before \<longrightarrow> q < pg)"
  using assms(1)
proof (induction pages arbitrary: i before)
  case Nil
  then have "Post pg m p \<in> set [Yield (Progress 93 Complete), Yield Done]"
    by (metis annotate_pages.simps(1) in_set_conv_decomp)
  then show ?case by simp
next
  case (Cons page rest)
  let ?st = "fst (page_steps E model ins ps pe n i page)"
  let ?go = "snd (page_steps E model ins ps pe n i page)"
  let ?rec = "annotate_pages E model ins ps pe n (Suc i) rest"
  have tr: "?st @ (if ?go then ?rec else []) = before @ Post pg m p # after"
    using Cons.prems by (simp only: annotate_pages_step)
  show ?case
  proof (cases "Post pg m p \<in> set ?st")
    case True
    from page_steps_failing_post [OF True assms(2)]
    have st: "?st = [Yield (Progress (pct E i n) (Annotating pg pe)), Yield (PageStart pg),
                     Post pg m p, Yield (Error (fatal_text (post E m p)))]" and go: "\<not> ?go"
      by simp_all
    from tr st go have "[Yield (Progress (pct E i n) (Annotating pg pe)), Yield (PageStart pg),
                     Post pg m p, Yield (Error (fatal_text (post E m p)))] = before @ Post pg m p # after"
      by simp
    then have "before = [Yield (Progress (pct E i n) (Annotating pg pe)), Yield (PageStart pg)]
               \<and> after = [Yield (Error (fatal_text (post E m p)))]"
      by (auto simp: Cons_eq_append_conv)
    then show ?thesis by auto
  next
    case False
    from split_after_prefix [OF tr False]
    obtain b' where b: "before = ?st @ b'" and r: "(if ?go then ?rec else []) = b' @ Post pg m p # after"
      by blast
    from r have go: "?go" by (auto split: if_splits)
    with r have rec: "?rec = b' @ Post pg m p # after" by simp
    from Cons.IH [OF rec]
    have ih: "after = [Yield (Error (fatal_text (post E m p)))]" "\<forall>t. Yield (Error t) \<notin> set b'"
      "\<forall>q m' p'. Post q m' p' \<in> set b' \<longrightarrow> q < pg"
      by blast+
    have "Post pg m p \<in> set ?rec" using rec by simp
    then have lt: "ps + int (Suc i) < pg" by (rule annotate_pages_numbers(1))
    have "q < pg" if "Post q m' p' \<in> set ?st" for q m' p'
      using page_steps_numbers(1) [OF that] lt by simp
    moreover have "Yield (Error t) \<notin> set ?st" for t
      using go by (rule page_steps_go_no_error)
    ultimately show ?thesis using b ih by auto
  qed
qed

text \<open>
  C4. When a call of the completion client ends in a connection failure or a timeout,
  the run ends with that call and one error event after it: nothing follows the error
  event, no error event comes before it, and every earlier call was made for an earlier
  page, so the failed call is not tried again.
\<close>

theorem client_failure_halts:
  assumes "generate E doc model ins page_from page_to = before @ Post pg m p # after"
    and "post E m p = ConnectionError \<or> post E m p = Timeout"
  shows "after = [Yield (Error (fatal_text (post E m p)))]
         \<and> (\<forall>t. Yield (Error t) \<notin> set before)
         \<and> (\<forall>q m' p'. Post q m' p' \<in> set before \<longrightarrow> q < pg)"
proof (cases doc)
  case (OpenFails x)
  with assms(1) have "[Yield (Error x)] = before @ Post pg m p # after"
    by (simp add: generate_def)
  then show ?thesis by (simp add: Cons_eq_append_conv)
next
  case (Pdf all_pages)
  let ?pages = "py_slice all_pages (page_from - 1) (min page_to (int (length all_pages)))"
  show ?thesis
  proof (cases "length ?pages = 0")
    case True
    with Pdf assms(1) have "[Yield (Error ''No pages found in that range.'')] = before @ Post pg m p # after"
      by (simp add: generate_def Let_def)
    then show ?thesis by (simp add: Cons_eq_append_conv)
  next
    case False
    with Pdf assms(1)
    have "annotate_pages E model ins (page_from - 1) (min page_to (int (length all_pages))) (length ?pages) 0 ?pages
            = before @ Post pg m p # after"
      by (simp add: generate_def Let_def)
    then show ?thesis using assms(2) by (rule annotate_pages_failing_post)
  qed
qed

lemma str_int_small: "str_int 1 = ''1''" "str_int 2 = ''2''" "str_int 3 = ''3''"
  by code_simp+

lemma prompts_differ:
  "build_prompt ''one'' ''do'' 1 \<noteq> build_prompt ''two'' ''do'' 2"
  "build_prompt ''three'' ''do'' 3 \<noteq> build_prompt ''two'' ''do'' 2"
  by (simp_all add: build_prompt_def str_int_small)

lemma strip_words:
  "py_strip ''one'' = ''one''" "py_strip ''two'' = ''two''" "py_strip ''three'' = ''three''"
  "py_strip one_record = one_record" "py_strip ''42'' = ''42''" "py_strip ''x'' = ''x''"
  by code_simp+

lemma repair_one_record:
  "repair_json json_loads one_record =
     Inr (JArr [JObj [(''type'', JStr ''summary''), (''quote'', JStr ''one''),
                      (''annotation'', JStr ''first''), (''themes'', JArr [])]])"
  by code_simp

lemma clean_one_record:
  "clean 100 (\<lambda>l. l) (JArr [JObj [(''type'', JStr ''summary''), (''quote'', JStr ''one''),
                      (''annotation'', JStr ''first''), (''themes'', JArr [])]]) = Inr [summary_one]"
  by code_simp

lemma one_record_not_empty: "one_record \<noteq> []"
  by (simp add: one_record_def)

lemma call_flaky:
  "call_ollama flaky m (build_prompt ''two'' ''do'' 2) =
     Inl (RuntimeError ''Cannot connect to Ollama. Run: ollama serve'')"
  "p \<noteq> build_prompt ''two'' ''do'' 2 \<Longrightarrow> call_ollama flaky m p = Inr [summary_one]"
  by (simp_all add: call_ollama_def flaky_def dict_get_def strip_words one_record_not_empty
        repair_one_record clean_one_record summary_one_def)

lemma exact_pct_thirds:
  "exact_pct 0 (Suc (Suc (Suc 0))) = 0" "exact_pct (Suc 0) (Suc (Suc (Suc 0))) = 30"
  "exact_pct (Suc (Suc 0)) (Suc (Suc (Suc 0))) = 61" "exact_pct 0 (Suc 0) = 0"
  by code_simp+

lemma pct_flaky: "pct flaky = exact_pct"
  by (simp add: flaky_def)

lemma slice_three:
  "py_slice [Extracted (Some ''one''), Extracted (Some ''two''), Extracted (Some ''three'')] 0 3
     = [Extracted (Some ''one''), Extracted (Some ''two''), Extracted (Some ''three'')]"
  by (simp add: py_slice_def)

lemma flaky_run:
  "generate flaky three_pages ''m'' ''do'' 1 3 =
     [Yield (Progress 0 (Annotating 1 3)), Yield (PageStart 1), Post 1 ''m'' (build_prompt ''one'' ''do'' 1),
      Yield (Annotation 1 summary_one),
      Yield (Progress 30 (Annotating 2 3)), Yield (PageStart 2)]
     @ Post 2 ''m'' (build_prompt ''two'' ''do'' 2) # [Yield (Error ''Cannot connect to Ollama. Run: ollama serve'')]"
  by (simp add: generate_def three_pages_def slice_three annotate_pages.simps(2) Let_def strip_words call_flaky prompts_differ
        pct_flaky exact_pct_thirds)

text \<open>
  C4 on three pages with the client failing on the second: the record of page 1, the
  start of page 2, one error event, nothing for page 3, and one call for each of the two
  pages.
\<close>

theorem client_failure_halts_witness:
  "events (generate flaky three_pages ''m'' ''do'' 1 3) =
     [Progress 0 (Annotating 1 3), PageStart 1, Annotation 1 summary_one,
      Progress 30 (Annotating 2 3), PageStart 2,
      Error ''Cannot connect to Ollama. Run: ollama serve'']
   \<and> posts (generate flaky three_pages ''m'' ''do'' 1 3) =
     [(1, ''m'', build_prompt ''one'' ''do'' 1), (2, ''m'', build_prompt ''two'' ''do'' 2)]"
proof -
  have down: "post flaky ''m'' (build_prompt ''two'' ''do'' 2) = ConnectionError"
    by (simp add: flaky_def)
  from client_failure_halts [OF flaky_run] down
  have "[Yield (Error ''Cannot connect to Ollama. Run: ollama serve'')]
          = [Yield (Error (fatal_text (post flaky ''m'' (build_prompt ''two'' ''do'' 2))))]"
    by blast
  then show ?thesis by (simp add: flaky_run events_def posts_def)
qed

lemma annotate_pages_ending:
  assumes bound: "\<And>j. j < n \<Longrightarrow> pct E j n \<le> 92"
    and "i + length pages \<le> n"
  shows "(\<exists>pre. annotate_pages E model ins ps pe n i pages = pre @ [Yield (Progress 93 Complete), Yield Done]
            \<and> (\<forall>t. Yield (Error t) \<notin> set pre)
            \<and> (\<forall>c l. Yield (Progress c l) \<in> set pre \<longrightarrow> c \<le> 92))
       \<or> (\<exists>pre t. annotate_pages E model ins ps pe n i pages = pre @ [Yield (Error t)]
            \<and> Yield Done \<notin> set pre
            \<and> (\<forall>u. Yield (Error u) \<notin> set pre)
            \<and> (\<forall>c l. Yield (Progress c l) \<in> set pre \<longrightarrow> c \<le> 92))"
  using assms(2)
proof (induction pages arbitrary: i)
  case Nil
  have "annotate_pages E model ins ps pe n i [] = [] @ [Yield (Progress 93 Complete), Yield Done]"
    by simp
  then show ?case by (metis empty_iff list.set(1))
next
  case (Cons page rest)
  let ?st = "fst (page_steps E model ins ps pe n i page)"
  let ?go = "snd (page_steps E model ins ps pe n i page)"
  let ?rec = "annotate_pages E model ins ps pe n (Suc i) rest"
  from Cons.prems have i: "i < n" and rest: "Suc i + length rest \<le> n" by simp_all
  have prog: "c \<le> 92" if "Yield (Progress c l) \<in> set ?st" for c l
    using page_steps_progress [OF that] bound [OF i] by simp
  show ?case
  proof (cases ?go)
    case True
    then have tr: "annotate_pages E model ins ps pe n i (page # rest) = ?st @ ?rec"
      by (simp only: annotate_pages_step if_True)
    have noerr: "Yield (Error t) \<notin> set ?st" for t
      using True by (rule page_steps_go_no_error)
    from Cons.IH [OF rest] show ?thesis
    proof (elim disjE exE conjE)
      fix pre
      assume a: "?rec = pre @ [Yield (Progress 93 Complete), Yield Done]"
        and b: "\<forall>t. Yield (Error t) \<notin> set pre"
        and c: "\<forall>c l. Yield (Progress c l) \<in> set pre \<longrightarrow> c \<le> 92"
      have "annotate_pages E model ins ps pe n i (page # rest) = (?st @ pre) @ [Yield (Progress 93 Complete), Yield Done]"
        using tr a by simp
      moreover have "\<forall>t. Yield (Error t) \<notin> set (?st @ pre)" using noerr b by simp
      moreover have "\<forall>c l. Yield (Progress c l) \<in> set (?st @ pre) \<longrightarrow> c \<le> 92" using prog c by auto
      ultimately show ?thesis by blast
    next
      fix pre t
      assume a: "?rec = pre @ [Yield (Error t)]"
        and d: "Yield Done \<notin> set pre"
        and b: "\<forall>u. Yield (Error u) \<notin> set pre"
        and c: "\<forall>c l. Yield (Progress c l) \<in> set pre \<longrightarrow> c \<le> 92"
      have "annotate_pages E model ins ps pe n i (page # rest) = (?st @ pre) @ [Yield (Error t)]"
        using tr a by simp
      moreover have "Yield Done \<notin> set (?st @ pre)" using page_steps_no_done d by simp
      moreover have "\<forall>u. Yield (Error u) \<notin> set (?st @ pre)" using noerr b by simp
      moreover have "\<forall>c l. Yield (Progress c l) \<in> set (?st @ pre) \<longrightarrow> c \<le> 92" using prog c by auto
      ultimately show ?thesis by blast
    qed
  next
    case False
    then have tr: "annotate_pages E model ins ps pe n i (page # rest) = ?st"
      by (simp only: annotate_pages_step if_False append_Nil2)
    from page_steps_stop [OF False] obtain front t where
      f: "?st = front @ [Yield (Error t)]" "\<forall>u. Yield (Error u) \<notin> set front" "Yield Done \<notin> set front"
      by blast
    have "\<forall>c l. Yield (Progress c l) \<in> set front \<longrightarrow> c \<le> 92"
      using prog f(1) by auto
    with tr f show ?thesis by metis
  qed
qed

text \<open>
  C5, as the code has it. The percentage of the loop is at most 92 (it is
  \<open>int((i / n) * 92)\<close> with \<open>i < n\<close>, taken here as a hypothesis on the parameter). A
  run either ends with the progress event of percentage 93 and the end marker, with no
  error event, or ends with its one error event, and then no progress event of the run
  goes beyond 92 and the end marker is not sent.
\<close>

theorem generate_ending:
  assumes "\<And>i n. i < n \<Longrightarrow> pct E i n \<le> 92"
  shows "(\<exists>pre. generate E doc model ins page_from page_to = pre @ [Yield (Progress 93 Complete), Yield Done]
            \<and> (\<forall>t. Yield (Error t) \<notin> set pre)
            \<and> (\<forall>c l. Yield (Progress c l) \<in> set pre \<longrightarrow> c \<le> 92))
       \<or> (\<exists>pre t. generate E doc model ins page_from page_to = pre @ [Yield (Error t)]
            \<and> Yield Done \<notin> set pre
            \<and> (\<forall>u. Yield (Error u) \<notin> set pre)
            \<and> (\<forall>c l. Yield (Progress c l) \<in> set pre \<longrightarrow> c \<le> 92))"
proof (cases doc)
  case (OpenFails x)
  then have "generate E doc model ins page_from page_to = [] @ [Yield (Error x)]"
    by (simp add: generate_def)
  then show ?thesis by (metis empty_iff list.set(1))
next
  case (Pdf all_pages)
  let ?pages = "py_slice all_pages (page_from - 1) (min page_to (int (length all_pages)))"
  show ?thesis
  proof (cases "length ?pages = 0")
    case True
    with Pdf have "generate E doc model ins page_from page_to = [] @ [Yield (Error ''No pages found in that range.'')]"
      by (simp add: generate_def Let_def)
    then show ?thesis by (metis empty_iff list.set(1))
  next
    case False
    with Pdf have "generate E doc model ins page_from page_to =
        annotate_pages E model ins (page_from - 1) (min page_to (int (length all_pages))) (length ?pages) 0 ?pages"
      by (simp add: generate_def Let_def)
    then show ?thesis
      using annotate_pages_ending [of "length ?pages" E 0 ?pages model ins "page_from - 1" "min page_to (int (length all_pages))"] assms
      by simp
  qed
qed

lemma exact_pct_le: "i < n \<Longrightarrow> exact_pct i n \<le> 92"
proof -
  assume "i < n"
  then have "rat_of_nat i / rat_of_nat n \<le> 1" by simp
  then have "rat_of_nat i / rat_of_nat n * 92 \<le> 1 * 92" by (rule mult_right_mono) simp
  then have "rat_of_nat i / rat_of_nat n * 92 \<le> 92" by simp
  then have "\<lfloor>rat_of_nat i / rat_of_nat n * 92\<rfloor> \<le> \<lfloor>92 :: rat\<rfloor>" by (rule floor_mono)
  then show ?thesis by (simp add: exact_pct_def)
qed

lemma slice_tail_three:
  "py_slice [Extracted (Some ''one''), Extracted (Some ''two''), Extracted (Some ''three'')] 1 3
     = [Extracted (Some ''two''), Extracted (Some ''three'')]"
  "py_slice [Extracted (Some ''one''), Extracted (Some ''two''), Extracted (Some ''three'')] 3 3 = []"
  "py_slice [Extracted (Some ''one''), Extracted (Some ''two''), Extracted (Some ''three'')] 0 1
     = [Extracted (Some ''one'')]"
  by (simp_all add: py_slice_def)

lemma exact_pct_zero: "exact_pct 0 n = 0"
  by (simp add: exact_pct_def)

text \<open>
  C5 as stated fails: a run that ends with the client down stops at the percentage of
  its last page, and a range without pages has no progress event at all.
\<close>

theorem fatal_run_without_terminal_progress:
  "events (generate flaky three_pages ''m'' ''do'' 2 3) =
     [Progress 0 (Annotating 2 3), PageStart 2, Error ''Cannot connect to Ollama. Run: ollama serve'']
   \<and> events (generate flaky three_pages ''m'' ''do'' 4 9999) = [Error ''No pages found in that range.'']"
  by (simp add: generate_def three_pages_def slice_tail_three annotate_pages.simps(2) Let_def strip_words call_flaky
        pct_flaky exact_pct_zero events_def)

text \<open>
  C5: the exact percentage meets the hypothesis; a run of one page ends with 93 and the
  end marker.
\<close>

theorem generate_ending_witness:
  "pct flaky = exact_pct
   \<and> events (generate flaky three_pages ''m'' ''do'' 1 1) =
       [Progress 0 (Annotating 1 1), PageStart 1, Annotation 1 summary_one, Progress 93 Complete, Done]
   \<and> ((\<exists>pre. generate flaky three_pages ''m'' ''do'' 1 3 = pre @ [Yield (Progress 93 Complete), Yield Done]
            \<and> (\<forall>t. Yield (Error t) \<notin> set pre)
            \<and> (\<forall>c l. Yield (Progress c l) \<in> set pre \<longrightarrow> c \<le> 92))
       \<or> (\<exists>pre t. generate flaky three_pages ''m'' ''do'' 1 3 = pre @ [Yield (Error t)]
            \<and> Yield Done \<notin> set pre
            \<and> (\<forall>u. Yield (Error u) \<notin> set pre)
            \<and> (\<forall>c l. Yield (Progress c l) \<in> set pre \<longrightarrow> c \<le> 92)))"
proof (intro conjI)
  show "pct flaky = exact_pct"
    by (rule pct_flaky)
  show "events (generate flaky three_pages ''m'' ''do'' 1 1) =
       [Progress 0 (Annotating 1 1), PageStart 1, Annotation 1 summary_one, Progress 93 Complete, Done]"
    by (simp add: generate_def three_pages_def slice_tail_three annotate_pages.simps(2) Let_def strip_words call_flaky prompts_differ
        pct_flaky exact_pct_zero events_def)
  have b: "pct flaky i n \<le> 92" if "i < n" for i n
    using that by (simp add: pct_flaky exact_pct_le)
  show "(\<exists>pre. generate flaky three_pages ''m'' ''do'' 1 3 = pre @ [Yield (Progress 93 Complete), Yield Done]
            \<and> (\<forall>t. Yield (Error t) \<notin> set pre)
            \<and> (\<forall>c l. Yield (Progress c l) \<in> set pre \<longrightarrow> c \<le> 92))
       \<or> (\<exists>pre t. generate flaky three_pages ''m'' ''do'' 1 3 = pre @ [Yield (Error t)]
            \<and> Yield Done \<notin> set pre
            \<and> (\<forall>u. Yield (Error u) \<notin> set pre)
            \<and> (\<forall>c l. Yield (Progress c l) \<in> set pre \<longrightarrow> c \<le> 92))"
    using b by (rule generate_ending)
qed

lemma page_annotations_append:
  "page_annotations pg (xs @ ys) = page_annotations pg xs @ page_annotations pg ys"
  by (simp add: page_annotations_def)

lemma page_annotations_none:
  "(\<And>a. Yield (Annotation pg a) \<notin> set tr) \<Longrightarrow> page_annotations pg tr = []"
proof (induction tr)
  case Nil
  then show ?case by (simp add: page_annotations_def)
next
  case (Cons s tr)
  then have "page_annotations pg tr = []" by simp
  moreover have "page_annotations pg [s] = []"
    using Cons.prems [of "case s of Yield (Annotation q a) \<Rightarrow> a"]
    by (auto simp: page_annotations_def split: step.splits event.splits)
  ultimately show ?case
    using page_annotations_append [of pg "[s]" tr] by simp
qed

lemma annotate_pages_head:
  "Yield (PageStart (ps + int i + 1)) \<in> set (annotate_pages E model ins ps pe n i (page # rest))"
  using page_steps_start [of ps i E model ins pe n page]
  by (simp only: annotate_pages_step set_append Un_iff) simp

lemma annotate_pages_blank:
  assumes "k < length pages" and "is_blank (pages ! k)"
    and "pg = ps + int i + int k + 1"
    and "Yield (PageStart pg) \<in> set (annotate_pages E model ins ps pe n i pages)"
  shows "page_annotations pg (annotate_pages E model ins ps pe n i pages) = [no_text]
         \<and> (\<forall>m p. Post pg m p \<notin> set (annotate_pages E model ins ps pe n i pages))
         \<and> (if Suc k < length pages
             then Yield (PageStart (pg + 1)) \<in> set (annotate_pages E model ins ps pe n i pages)
             else Yield Done \<in> set (annotate_pages E model ins ps pe n i pages))"
  using assms
proof (induction pages arbitrary: i k)
  case Nil
  then show ?case by simp
next
  case (Cons page rest)
  let ?st = "fst (page_steps E model ins ps pe n i page)"
  let ?go = "snd (page_steps E model ins ps pe n i page)"
  let ?rec = "annotate_pages E model ins ps pe n (Suc i) rest"
  have tr: "annotate_pages E model ins ps pe n i (page # rest) = ?st @ (if ?go then ?rec else [])"
    by (rule annotate_pages_step)
  show ?case
  proof (cases k)
    case 0
    with Cons.prems(2) have blank: "is_blank page" by simp
    from 0 Cons.prems(3) have pg: "ps + int i + 1 = pg" by simp
    note st = page_steps_blank [OF blank, of E model ins ps pe n i, unfolded pg]
    have tr0: "annotate_pages E model ins ps pe n i (page # rest) =
                 [Yield (Progress (pct E i n) (Annotating pg pe)), Yield (PageStart pg),
                  Yield (Annotation pg no_text)] @ ?rec"
      using tr st by simp
    have later: "page_annotations pg ?rec = []"
    proof (rule page_annotations_none)
      fix a
      show "Yield (Annotation pg a) \<notin> set ?rec"
        using annotate_pages_numbers(3) [of pg a E model ins ps pe n "Suc i" rest] pg by auto
    qed
    have ann: "page_annotations pg (annotate_pages E model ins ps pe n i (page # rest)) = [no_text]"
      using later by (simp only: tr0 page_annotations_append) (simp add: page_annotations_def)
    have nopost: "Post pg m p \<notin> set (annotate_pages E model ins ps pe n i (page # rest))" for m p
      using annotate_pages_numbers(1) [of pg m p E model ins ps pe n "Suc i" rest] pg
      by (auto simp: tr0)
    have next_step: "if Suc 0 < length (page # rest)
             then Yield (PageStart (pg + 1)) \<in> set (annotate_pages E model ins ps pe n i (page # rest))
             else Yield Done \<in> set (annotate_pages E model ins ps pe n i (page # rest))"
    proof (cases rest)
      case Nil
      then show ?thesis unfolding tr0 by simp
    next
      case (Cons page' rest')
      have "Yield (PageStart (ps + int (Suc i) + 1)) \<in> set (annotate_pages E model ins ps pe n (Suc i) (page' # rest'))"
        by (rule annotate_pages_head)
      moreover have "ps + int (Suc i) + 1 = pg + 1" using pg by simp
      ultimately have "Yield (PageStart (pg + 1)) \<in> set (annotate_pages E model ins ps pe n (Suc i) (page' # rest'))"
        by (simp only:)
      then show ?thesis unfolding tr0 using Cons by simp
    qed
    from ann nopost next_step show ?thesis using 0 by blast
  next
    case (Suc k')
    from Suc Cons.prems(3) have pg: "pg = ps + int (Suc i) + int k' + 1" by simp
    from Suc Cons.prems(3) have far: "pg \<noteq> ps + int i + 1" by simp
    have notst: "Yield (PageStart pg) \<notin> set ?st"
      using page_steps_numbers(2) [of pg E model ins ps pe n i page] far by auto
    with Cons.prems(4) tr have go: "?go" and inrec: "Yield (PageStart pg) \<in> set ?rec"
      by (auto split: if_splits)
    from Cons.prems(1,2) Suc have k': "k' < length rest" "is_blank (rest ! k')" by simp_all
    note ih = Cons.IH [OF k' pg inrec]
    have tr1: "annotate_pages E model ins ps pe n i (page # rest) = ?st @ ?rec"
      using tr go by simp
    have "page_annotations pg ?st = []"
    proof (rule page_annotations_none)
      fix a
      show "Yield (Annotation pg a) \<notin> set ?st"
        using page_steps_numbers(3) [of pg a E model ins ps pe n i page] far by auto
    qed
    then have ann: "page_annotations pg (annotate_pages E model ins ps pe n i (page # rest)) = [no_text]"
      using ih [THEN conjunct1] by (simp only: tr1 page_annotations_append) simp
    have nopost: "Post pg m p \<notin> set (annotate_pages E model ins ps pe n i (page # rest))" for m p
      using page_steps_numbers(1) [of pg m p E model ins ps pe n i page] ih [THEN conjunct2, THEN conjunct1] far
      by (auto simp: tr1)
    have next_step: "if Suc k < length (page # rest)
             then Yield (PageStart (pg + 1)) \<in> set (annotate_pages E model ins ps pe n i (page # rest))
             else Yield Done \<in> set (annotate_pages E model ins ps pe n i (page # rest))"
      using ih [THEN conjunct2, THEN conjunct2] Suc by (auto simp: tr1 split: if_splits)
    from ann nopost next_step show ?thesis by blast
  qed
qed

text \<open>
  C7, as the code has it. For a page of the range with no text or white space only that
  the run reaches, which it does unless an earlier page has ended it with an error
  event: its annotation events are exactly the one canned record, with an empty quote;
  no call of the client is made for it; and the run goes on, to the start of the next
  page or, after the last page, to the end marker.
\<close>

theorem blank_page_is_noted:
  assumes "pages = py_slice all_pages (page_from - 1) (min page_to (int (length all_pages)))"
    and "tr = generate E (Pdf all_pages) model ins page_from page_to"
    and "k < length pages" and "is_blank (pages ! k)"
    and "Yield (PageStart (page_from + int k)) \<in> set tr"
  shows "page_annotations (page_from + int k) tr =
           [\<lparr> atype = ''notation'', quote = [],
              annotation = ''No extractable text on this page (may be an image).'', themes = [] \<rparr>]
         \<and> (\<forall>m p. Post (page_from + int k) m p \<notin> set tr)
         \<and> (if Suc k < length pages then Yield (PageStart (page_from + int k + 1)) \<in> set tr
             else Yield Done \<in> set tr)"
proof -
  from assms(3) have "length pages \<noteq> 0" by auto
  with assms(1,2) have tr: "tr = annotate_pages E model ins (page_from - 1) (min page_to (int (length all_pages)))
                             (length pages) 0 pages"
    by (simp add: generate_def Let_def)
  have pg: "page_from + int k = (page_from - 1) + int 0 + int k + 1" by simp
  from annotate_pages_blank [OF assms(3,4) pg] assms(5) tr
  show ?thesis by (simp add: no_text_def)
qed

lemma blank_texts: "py_strip ''  '' = []" "py_strip [] = []"
  by code_simp+

lemma slice_fatal_then_blank:
  "py_slice [Extracted (Some ''one''), Extracted (Some ''two''), Extracted None] 0 3
     = [Extracted (Some ''one''), Extracted (Some ''two''), Extracted None]"
  by (simp add: py_slice_def)

lemma fatal_then_blank_run:
  "generate flaky fatal_then_blank ''m'' ''do'' 1 3 =
     [Yield (Progress 0 (Annotating 1 3)), Yield (PageStart 1), Post 1 ''m'' (build_prompt ''one'' ''do'' 1),
      Yield (Annotation 1 summary_one),
      Yield (Progress 30 (Annotating 2 3)), Yield (PageStart 2)]
     @ Post 2 ''m'' (build_prompt ''two'' ''do'' 2) # [Yield (Error ''Cannot connect to Ollama. Run: ollama serve'')]"
  by (simp add: generate_def fatal_then_blank_def slice_fatal_then_blank annotate_pages.simps(2) Let_def strip_words
        call_flaky prompts_differ pct_flaky exact_pct_thirds)

text \<open>
  C7 as stated fails for a blank page that follows a page on which the job ends. Of three
  pages in the range the client is down on the second, and the third has no text: the
  run ends with the error event of page 2, and page 3 gets neither its start nor its
  record.
\<close>

theorem blank_page_after_fatal_page:
  "fatal_then_blank = Pdf [Extracted (Some ''one''), Extracted (Some ''two''), Extracted None]
   \<and> is_blank (Extracted None)
   \<and> events (generate flaky fatal_then_blank ''m'' ''do'' 1 3) =
       [Progress 0 (Annotating 1 3), PageStart 1, Annotation 1 summary_one,
        Progress 30 (Annotating 2 3), PageStart 2, Error ''Cannot connect to Ollama. Run: ollama serve'']
   \<and> page_annotations 3 (generate flaky fatal_then_blank ''m'' ''do'' 1 3) = []
   \<and> Yield (PageStart 3) \<notin> set (generate flaky fatal_then_blank ''m'' ''do'' 1 3)"
  by (simp add: fatal_then_blank_run events_def page_annotations_def is_blank_def blank_texts fatal_then_blank_def [symmetric])

lemma blank_run:
  "generate flaky blank_pages ''m'' ''do'' 1 9999 =
     [Yield (Progress 0 (Annotating 1 2)), Yield (PageStart 1), Yield (Annotation 1 no_text),
      Yield (Progress 46 (Annotating 2 2)), Yield (PageStart 2), Yield (Annotation 2 no_text),
      Yield (Progress 93 Complete), Yield Done]"
proof -
  have "exact_pct 0 (Suc (Suc 0)) = 0" "exact_pct (Suc 0) (Suc (Suc 0)) = 46"
    by code_simp+
  moreover have "py_slice [Extracted (Some ''  ''), Extracted None] 0 2 = [Extracted (Some ''  ''), Extracted None]"
    by (simp add: py_slice_def)
  ultimately show ?thesis
    by (simp add: generate_def blank_pages_def annotate_pages.simps(2) Let_def blank_texts pct_flaky)
qed

text \<open>
  C7 on a document of two blank pages: one record for each, no call, and the end marker.
\<close>

theorem blank_page_is_noted_witness:
  "is_blank (Extracted (Some ''  ''))
   \<and> events (generate flaky blank_pages ''m'' ''do'' 1 9999) =
       [Progress 0 (Annotating 1 2), PageStart 1, Annotation 1 no_text,
        Progress 46 (Annotating 2 2), PageStart 2, Annotation 2 no_text,
        Progress 93 Complete, Done]
   \<and> page_annotations 1 (generate flaky blank_pages ''m'' ''do'' 1 9999) = [no_text]
   \<and> posts (generate flaky blank_pages ''m'' ''do'' 1 9999) = []"
proof -
  have s: "[Extracted (Some ''  ''), Extracted None]
             = py_slice [Extracted (Some ''  ''), Extracted None] (1 - 1) (min 9999 (int (length [Extracted (Some ''  ''), Extracted None])))"
    by (simp add: py_slice_def)
  have b: "is_blank ([Extracted (Some ''  ''), Extracted None] ! 0)"
    by (simp add: is_blank_def blank_texts)
  have t: "generate flaky blank_pages ''m'' ''do'' 1 9999 = generate flaky (Pdf [Extracted (Some ''  ''), Extracted None]) ''m'' ''do'' 1 9999"
    by (simp add: blank_pages_def)
  have p: "Yield (PageStart (1 + int 0)) \<in> set (generate flaky blank_pages ''m'' ''do'' 1 9999)"
    by (simp add: blank_run)
  from blank_page_is_noted [OF s t _ b p]
  have "page_annotations (1 + int 0) (generate flaky blank_pages ''m'' ''do'' 1 9999) = [no_text]"
    by (simp add: no_text_def)
  then show ?thesis
    using b by (simp add: blank_run events_def posts_def)
qed

text \<open>
  C9 fails on the code. The model's whole output is \<open>42\<close>: the direct parse returns the
  number, \<open>_clean\<close> cannot run through it, and the \<open>TypeError\<close> ends the job with an
  error event; the page, which has text and whose call completed, gets no annotation
  event.
\<close>

theorem scalar_output_is_fatal:
  "events (generate scalar (Pdf [Extracted (Some ''x'')]) ''m'' ''do'' 1 1) =
     [Progress 0 (Annotating 1 1), PageStart 1, Error (quoted ''int'' @ '' object is not iterable'')]"
proof -
  have r: "repair_json json_loads ''42'' = Inr (JInt 42)"
    by code_simp
  have c: "call_ollama scalar m p = Inl (RuntimeError (quoted ''int'' @ '' object is not iterable''))" for m p
    by (simp add: call_ollama_def scalar_def dict_get_def strip_words r clean_def py_iter_def handle_def type_name_def)
  have s: "py_slice [Extracted (Some ''x'')] 0 1 = [Extracted (Some ''x'')]"
    by (simp add: py_slice_def)
  have p: "pct scalar = exact_pct"
    by (simp add: scalar_def)
  show ?thesis
    by (simp add: generate_def annotate_pages.simps(2) Let_def s strip_words c p exact_pct_zero events_def)
qed
section \<open>Results on the renderer and the render call\<close>


lemma box_height_pos: "0 \<le> box_height a b c"
  by (simp add: box_height_def BOX_PAD_def FS_LBL_def LH_QT_def LH_TX_def FS_QT_def FS_TX_def)

lemma quote_text_no_box: "Box r f a \<notin> set (quote_text tx ty ls)"
  by (induction ls arbitrary: ty) auto

lemma body_text_no_box: "Box r f a \<notin> set (body_text tx y1 ty ls)"
  by (induction ls arbitrary: ty) auto

lemma place_cases: "place ph my h = 14 \<or> place ph my h + h \<le> ph - 12"
  by (simp add: place_def)

lemma draw_box_box:
  assumes "Box (x0, y0, x1, y1) f a \<in> set (fst (draw_box ph X W my fill accent label ql al ts))"
  shows "(y0 = 14 \<or> y1 \<le> ph - 12) \<and> y0 \<le> y1"
proof -
  let ?h = "box_height (length ql) (length al) (ts \<noteq> [])"
  from assms have "y0 = place ph my ?h \<and> y1 = place ph my ?h + ?h"
    by (auto simp: draw_box_def Let_def quote_text_no_box body_text_no_box split: if_splits)
  then show ?thesis
    using place_cases [of ph my ?h] box_height_pos [of "length ql" "length al" "ts \<noteq> []"] by auto
qed

lemma render_ann_box:
  assumes "render_ann R pg_idx ph X W C my ann = Inr (ops, my')"
    and "Box (x0, y0, x1, y1) f a \<in> set ops"
  shows "(y0 = 14 \<or> y1 \<le> ph - 12) \<and> y0 \<le> y1"
  using assms
  by (auto simp: render_ann_def raising_def Let_def split: sum.splits if_splits
           dest!: draw_box_box)

lemma render_anns_box:
  assumes "render_anns R pg_idx ph X W C my anns = Inr ops"
    and "Box (x0, y0, x1, y1) f a \<in> set ops"
  shows "(y0 = 14 \<or> y1 \<le> ph - 12) \<and> y0 \<le> y1"
  using assms
proof (induction anns arbitrary: my ops)
  case Nil
  then show ?case by simp
next
  case (Cons ann anns)
  from Cons.prems(1) obtain ops1 my1 ops2 where
    one: "render_ann R pg_idx ph X W C my ann = Inr (ops1, my1)"
    and two: "render_anns R pg_idx ph X W C my1 anns = Inr ops2"
    and ops: "ops = ops1 @ ops2"
    by (auto split: sum.splits)
  from Cons.prems(2) ops consider "Box (x0, y0, x1, y1) f a \<in> set ops1" | "Box (x0, y0, x1, y1) f a \<in> set ops2"
    by auto
  then show ?case
  proof cases
    case 1
    with one show ?thesis by (rule render_ann_box)
  next
    case 2
    with two show ?thesis by (rule Cons.IH)
  qed
qed

lemma render_page_box:
  assumes "render_page R pg_idx (pw, ph) anns = Inr ops"
    and "Box (x0, y0, x1, y1) f a \<in> set ops"
  shows "(y0 = 14 \<or> y1 \<le> ph - 12) \<and> y0 \<le> y1"
proof -
  from assms obtain X W C ops' where
    "render_anns R pg_idx ph X W C 14 anns = Inr ops'" "Box (x0, y0, x1, y1) f a \<in> set ops'"
    by (auto simp: render_page_def Let_def split: sum.splits)
  then show ?thesis by (rule render_anns_box)
qed

lemma boxes_placed_append: "boxes_placed ph (xs @ ys) \<longleftrightarrow> boxes_placed ph xs \<and> boxes_placed ph ys"
  unfolding boxes_placed_def by (simp only: set_append Un_iff) blast

lemma render_groups_boxes:
  assumes "render_groups R pages groups drawn = Inr out"
    and "length drawn = length pages"
    and "\<And>j. j < length pages \<Longrightarrow> boxes_placed (snd (pages ! j)) (drawn ! j)"
  shows "length out = length pages \<and> (\<forall>j < length pages. boxes_placed (snd (pages ! j)) (out ! j))"
  using assms
proof (induction groups arbitrary: drawn)
  case Nil
  then show ?case by simp
next
  case (Cons g groups)
  obtain page_num anns where g: "g = (page_num, anns)" by (cases g)
  from Cons.prems(1) g obtain pg_idx where idx: "page_index page_num = Inr pg_idx"
    by (auto split: sum.splits)
  show ?case
  proof (cases "pg_idx < 0 \<or> pg_idx \<ge> int (length pages)")
    case True
    with Cons.prems(1) g idx have "render_groups R pages groups drawn = Inr out" by simp
    then show ?thesis using Cons.prems(2,3) by (rule Cons.IH)
  next
    case False
    let ?k = "nat pg_idx"
    from False have k: "?k < length pages" by linarith
    from Cons.prems(1) g idx False obtain ops where
      page: "render_page R ?k (pages ! ?k) anns = Inr ops"
      and rest: "render_groups R pages groups (drawn [?k := drawn ! ?k @ ops]) = Inr out"
      by (auto split: sum.splits)
    have "boxes_placed (snd (pages ! ?k)) ops"
      unfolding boxes_placed_def
      using render_page_box [of R ?k "fst (pages ! ?k)" "snd (pages ! ?k)" anns ops] page
      by simp
    then have "boxes_placed (snd (pages ! j)) ((drawn [?k := drawn ! ?k @ ops]) ! j)" if "j < length pages" for j
      using Cons.prems(2) Cons.prems(3) [OF that] that k
      by (cases "j = ?k") (simp_all add: boxes_placed_append)
    moreover have "length (drawn [?k := drawn ! ?k @ ops]) = length pages"
      using Cons.prems(2) by simp
    ultimately show ?thesis using rest Cons.IH by blast
  qed
qed

text \<open>
  C6, as the code has it. Every margin box of a rendered page starts at the top inset
  14 or ends at or above the bottom inset, which is the rule that a box that would pass
  the bottom inset at the cursor is drawn from the top inset instead; and on a page at
  least 26 high the top of every margin box is at or above the bottom inset.
\<close>

theorem margin_boxes_placed:
  assumes "render_pdf R (Doc pages) by_page = Inr out"
    and "j < length pages"
    and "Box (x0, y0, x1, y1) f a \<in> set (out ! j)"
  shows "(y0 = 14 \<or> y1 \<le> snd (pages ! j) - 12) \<and> (26 \<le> snd (pages ! j) \<longrightarrow> y0 \<le> snd (pages ! j) - 12)"
proof -
  from assms(1) have "render_groups R pages by_page (replicate (length pages) []) = Inr out"
    by (simp add: render_pdf_def)
  moreover have "boxes_placed (snd (pages ! i)) (replicate (length pages) [] ! i)" if "i < length pages" for i
    using that by (simp add: boxes_placed_def)
  ultimately have "boxes_placed (snd (pages ! j)) (out ! j)"
    using render_groups_boxes [of R pages by_page "replicate (length pages) []" out] assms(2) by simp
  with assms(3) have "(y0 = 14 \<or> y1 \<le> snd (pages ! j) - 12) \<and> y0 \<le> y1"
    unfolding boxes_placed_def by blast
  then show ?thesis by auto
qed

text \<open>
  C6 as stated fails on a page lower than the two insets together: on a page 20 high the
  bottom inset is at 8, and the one box is drawn from 14.
\<close>

theorem box_below_bottom_inset:
  "render_pdf plain (Doc [(100, 20)]) [(JInt 1, [[]])] =
     Inr [[Separator 75 14 6,
           Box (78, 14, 96, 303/10) (94/100, 94/100, 96/100) (45/100, 50/100, 58/100),
           Bar (78, 14, 808/10, 303/10) (45/100, 50/100, 58/100),
           InsertText 83 (238/10) ''NB'' (58/10) (45/100, 50/100, 58/100)]]
   \<and> (14 :: rat) > 20 - 12"
  by code_simp

text \<open>
  C6 on a page 80 high with two notes: the second would pass the bottom inset after the
  first, and starts from the top inset again.
\<close>

theorem margin_boxes_placed_witness:
  "render_pdf plain (Doc [(600, 80)]) two_notes =
     Inr [[Separator 460 14 66,
           Box (463, 14, 596, 9921/250) (94/100, 94/100, 96/100) (45/100, 50/100, 58/100),
           Bar (463, 14, 4658/10, 9921/250) (45/100, 50/100, 58/100),
           InsertText 468 (238/10) ''NB'' (58/10) (45/100, 50/100, 58/100),
           InsertText 468 (332/10) ''x'' (69/10) (8/100, 10/100, 16/100),
           Box (463, 14, 596, 9921/250) (94/100, 94/100, 96/100) (45/100, 50/100, 58/100),
           Bar (463, 14, 4658/10, 9921/250) (45/100, 50/100, 58/100),
           InsertText 468 (238/10) ''NB'' (58/10) (45/100, 50/100, 58/100),
           InsertText 468 (332/10) ''y'' (69/10) (8/100, 10/100, 16/100)]]
   \<and> (26 :: rat) \<le> snd (600 :: rat, 80 :: rat)
   \<and> (14 :: rat) \<le> 80 - 12"
proof -
  let ?out = "[[Separator 460 14 66,
           Box (463, 14, 596, 9921/250) (94/100, 94/100, 96/100) (45/100, 50/100, 58/100),
           Bar (463, 14, 4658/10, 9921/250) (45/100, 50/100, 58/100),
           InsertText 468 (238/10) ''NB'' (58/10) (45/100, 50/100, 58/100),
           InsertText 468 (332/10) ''x'' (69/10) (8/100, 10/100, 16/100),
           Box (463, 14, 596, 9921/250) (94/100, 94/100, 96/100) (45/100, 50/100, 58/100),
           Bar (463, 14, 4658/10, 9921/250) (45/100, 50/100, 58/100),
           InsertText 468 (238/10) ''NB'' (58/10) (45/100, 50/100, 58/100),
           InsertText 468 (332/10) ''y'' (69/10) (8/100, 10/100, 16/100)]] :: op list list"
  have run: "render_pdf plain (Doc [(600, 80)]) two_notes = Inr ?out"
    by code_simp
  have j: "0 < length [(600 :: rat, 80 :: rat)]" by simp
  have b: "Box (463, 14, 596, 9921/250) (94/100, 94/100, 96/100) (45/100, 50/100, 58/100) \<in> set (?out ! 0)"
    by simp
  from margin_boxes_placed [OF run j b] have "26 \<le> snd ([(600 :: rat, 80 :: rat)] ! 0) \<longrightarrow> (14 :: rat) \<le> snd ([(600 :: rat, 80 :: rat)] ! 0) - 12"
    by blast
  then show ?thesis using run by simp
qed

text \<open>
  C10, as the code has it. For any two pairs of values of the fields \<open>page_from\<close> and
  \<open>page_to\<close> that \<open>int\<close> accepts (a field can be absent or empty), the answer of the
  render call is the same: the same status and text, or the same drawing calls on the
  same pages of the document. The handler converts the fields and never uses them. The
  bytes of the file are what \<open>doc.save\<close> writes after those calls, and are no part of
  this statement.
\<close>

theorem build_pdf_ignores_range:
  assumes "int_field page_from 1 = Inr a" and "int_field page_to 9999 = Inr b"
    and "int_field page_from' 1 = Inr a'" and "int_field page_to' 9999 = Inr b'"
  shows "build_pdf loads R pdf annotations page_from page_to
           = build_pdf loads R pdf annotations page_from' page_to'"
  by (simp add: build_pdf_def assms split: option.splits)

text \<open>
  C10 as stated fails for a field that is not an integer literal: \<open>int\<close> raises, the
  exception leaves the handler, and nothing is rendered.
\<close>

theorem build_pdf_rejects_range:
  "build_pdf json_loads plain (Some (Doc [(600, 800)])) (Some ''[]'') (Some ''x'') None =
     Unhandled (ValueError (''invalid literal for int() with base 10: '' @ quoted ''x''))
   \<and> build_pdf json_loads plain (Some (Doc [(600, 800)])) (Some ''[]'') (Some ''1'') None = Rendered [[]]"
  by code_simp

text \<open>
  C10 on two requests that differ in the range fields only, with one note for page 1:
  the same box is drawn on page 1 for the range from 3 to 12 and for no range at all. A
  field with the separator U+001C before the digit, which \<open>str.strip\<close> would remove,
  is not one that \<open>int\<close> accepts.
\<close>

theorem build_pdf_ignores_range_witness:
  "int_field (Some ''3'') 1 = Inr 3 \<and> int_field (Some '' 12 '') 9999 = Inr 12
   \<and> int_field None 1 = Inr 1 \<and> int_field (Some []) 9999 = Inr 9999
   \<and> build_pdf json_loads plain (Some (Doc [(600, 800)])) (Some one_note) (Some ''3'') (Some '' 12 '')
       = Rendered [[Separator 460 14 786,
                    Box (463, 14, 596, 9921/250) (94/100, 94/100, 96/100) (45/100, 50/100, 58/100),
                    Bar (463, 14, 4658/10, 9921/250) (45/100, 50/100, 58/100),
                    InsertText 468 (238/10) ''NB'' (58/10) (45/100, 50/100, 58/100),
                    InsertText 468 (332/10) ''x'' (69/10) (8/100, 10/100, 16/100)]]
   \<and> build_pdf json_loads plain (Some (Doc [(600, 800)])) (Some one_note) None (Some [])
       = Rendered [[Separator 460 14 786,
                    Box (463, 14, 596, 9921/250) (94/100, 94/100, 96/100) (45/100, 50/100, 58/100),
                    Bar (463, 14, 4658/10, 9921/250) (45/100, 50/100, 58/100),
                    InsertText 468 (238/10) ''NB'' (58/10) (45/100, 50/100, 58/100),
                    InsertText 468 (332/10) ''x'' (69/10) (8/100, 10/100, 16/100)]]
   \<and> isl (int_field (Some [CHR 0x1C, CHR ''5'']) 1)"
proof -
  have a: "int_field (Some ''3'') 1 = Inr 3" "int_field (Some '' 12 '') 9999 = Inr 12"
    by code_simp+
  have b: "int_field None 1 = Inr 1" "int_field (Some []) 9999 = Inr 9999"
    by (simp_all add: int_field_def)
  have c: "build_pdf json_loads plain (Some (Doc [(600, 800)])) (Some one_note) (Some ''3'') (Some '' 12 '')
       = Rendered [[Separator 460 14 786,
                    Box (463, 14, 596, 9921/250) (94/100, 94/100, 96/100) (45/100, 50/100, 58/100),
                    Bar (463, 14, 4658/10, 9921/250) (45/100, 50/100, 58/100),
                    InsertText 468 (238/10) ''NB'' (58/10) (45/100, 50/100, 58/100),
                    InsertText 468 (332/10) ''x'' (69/10) (8/100, 10/100, 16/100)]]"
    by code_simp
  have d: "isl (int_field (Some [CHR 0x1C, CHR ''5'']) 1)"
    by code_simp
  from build_pdf_ignores_range [OF a b, of json_loads plain "Some (Doc [(600, 800)])" "Some one_note"] a b c d
  show ?thesis by simp
qed

end
